theory Spec2Isabelle
  imports Complex_Main "HOL-Library.Log_Nat"
begin

section \<open>JavaScript strings as the tracker uses them\<close>

text \<open>
  A JavaScript string is modelled as a \<^typ>\<open>string\<close>: one \<^typ>\<open>char\<close> per code unit.
  The macro patterns consist of brackets and upper-case ASCII letters only. Under the
  \<^verbatim>\<open>i\<close> flag (without \<^verbatim>\<open>u\<close>) a code unit matches such a pattern character
  when its upper-case form is that character, and a code unit outside ASCII never
  canonicalizes to an ASCII one, so upper-casing the ASCII letters is all that can matter.
\<close>

definition canonicalize :: "char \<Rightarrow> char" where
  "canonicalize c =
     (case map_of (zip ''abcdefghijklmnopqrstuvwxyz'' ''ABCDEFGHIJKLMNOPQRSTUVWXYZ'') c of
        Some u \<Rightarrow> u
      | None \<Rightarrow> c)"

text \<open>Does the literal pattern match, ignoring case, at the start of the subject?\<close>

fun ci_prefix :: "string \<Rightarrow> string \<Rightarrow> bool" where
  "ci_prefix [] s = True"
| "ci_prefix (p # ps) [] = False"
| "ci_prefix (p # ps) (c # cs) = (canonicalize p = canonicalize c \<and> ci_prefix ps cs)"

text \<open>
  \<^verbatim>\<open>GetSubstitution(matched, str, position, captures, replacement)\<close> of
  \<^verbatim>\<open>String.prototype.replace\<close> for a pattern without capture groups: in the replacement
  text \<^verbatim>\<open>$$\<close> is a dollar sign, \<^verbatim>\<open>$&\<close> the matched text, \<^verbatim>\<open>$`\<close> the part of the
  subject before the match and \<^verbatim>\<open>$'\<close> the part after it; every other character,
  also a dollar sign before anything else, stands for itself.
\<close>

fun get_substitution :: "string \<Rightarrow> string \<Rightarrow> nat \<Rightarrow> string \<Rightarrow> string" where
  "get_substitution matched str position [] = []"
| "get_substitution matched str position [c] = [c]"
| "get_substitution matched str position (c # d # r) =
     (if c = CHR ''$'' \<and> d = CHR ''$'' then CHR ''$'' # get_substitution matched str position r
      else if c = CHR ''$'' \<and> d = CHR ''&'' then matched @ get_substitution matched str position r
      else if c = CHR ''$'' \<and> d = CHR 0x60 then
        take position str @ get_substitution matched str position r
      else if c = CHR ''$'' \<and> d = CHR 0x27 then
        drop (position + length matched) str @ get_substitution matched str position r
      else c # get_substitution matched str position (d # r))"

text \<open>
  \<^verbatim>\<open>str.replace(new RegExp(escaped, 'gi'), value)\<close> for a literal pattern: the subject is
  scanned from the left, every match is replaced by the expansion of the replacement
  text, and scanning resumes behind the match. \<open>js_replace_from\<close> carries the whole
  subject and the position reached, which the expansion may refer to.
\<close>

function js_replace_from :: "string \<Rightarrow> string \<Rightarrow> string \<Rightarrow> nat \<Rightarrow> string \<Rightarrow> string" where
  "js_replace_from pat repl str position [] = []"
| "js_replace_from pat repl str position (c # cs) =
     (if pat \<noteq> [] \<and> ci_prefix pat (c # cs) then
        get_substitution (take (length pat) (c # cs)) str position repl
          @ js_replace_from pat repl str (position + length pat) (drop (length pat) (c # cs))
      else c # js_replace_from pat repl str (Suc position) cs)"
  by pat_completeness auto
termination
  by (relation "measure (\<lambda>(pat, repl, str, position, rest). length rest)") auto

definition js_replace_gi :: "string \<Rightarrow> string \<Rightarrow> string \<Rightarrow> string" where
  "js_replace_gi pat repl str = js_replace_from pat repl str 0 str"

text \<open>\<^verbatim>\<open>ToString\<close> of a non-negative integer: its decimal digits.\<close>

definition digit_char :: "nat \<Rightarrow> char" where
  "digit_char d = ''0123456789'' ! d"

fun string_of_nat :: "nat \<Rightarrow> string" where
  "string_of_nat n =
     (if n < 10 then [digit_char n] else string_of_nat (n div 10) @ [digit_char (n mod 10)])"

declare string_of_nat.simps [simp del]

text \<open>
  \<^verbatim>\<open>encodeURIComponent\<close> on code units below 256: the unreserved characters stand for
  themselves, every other one is written as the percent-escaped bytes of its UTF-8
  encoding.
\<close>

definition hex_digit :: "nat \<Rightarrow> char" where
  "hex_digit d = ''0123456789ABCDEF'' ! d"

definition percent_byte :: "nat \<Rightarrow> string" where
  "percent_byte b = [CHR ''%'', hex_digit (b div 16), hex_digit (b mod 16)]"

definition uri_unreserved :: "char \<Rightarrow> bool" where
  "uri_unreserved c \<longleftrightarrow>
     c \<in> set ''abcdefghijklmnopqrstuvwxyzABCDEFGHIJKLMNOPQRSTUVWXYZ0123456789-_.!~*()''
     \<or> c = CHR 0x27"

definition encode_unit :: "char \<Rightarrow> string" where
  "encode_unit c =
     (let n = (of_char c :: nat) in
      if uri_unreserved c then [c]
      else if n < 128 then percent_byte n
      else percent_byte (192 + n div 64) @ percent_byte (128 + n mod 64))"

definition encodeURIComponent :: "string \<Rightarrow> string" where
  "encodeURIComponent s = concat (map encode_unit s)"

section \<open>JavaScript numbers as the player uses them\<close>

text \<open>
  A Number is an IEEE 754 double: not a number, an infinity, or a finite value, which is
  a rational number. The sign of a zero is not kept; nothing below reads it.
\<close>

datatype number = NaN | PosInfinity | NegInfinity | Finite rat

text \<open>The nearest integer, a tie going to the even one.\<close>

definition round_half_even :: "rat \<Rightarrow> int" where
  "round_half_even x =
     (let f = \<lfloor>x\<rfloor>; r = x - of_int f
      in if r < 1 / 2 then f else if 1 / 2 < r then f + 1 else if even f then f else f + 1)"

text \<open>For a positive \<open>x\<close>, the \<open>e\<close> with \<open>2 ^ e \<le> x < 2 ^ (e + 1)\<close>.\<close>

definition binade :: "rat \<Rightarrow> int" where
  "binade x = (if 1 \<le> x then bitlen \<lfloor>x\<rfloor> - 1 else - bitlen (\<lceil>1 / x\<rceil> - 1))"

text \<open>
  A double has a significand of 53 bits and an exponent of at least \<open>- 1022\<close>, below
  which the subnormal numbers keep the spacing \<open>2 ^ - 1074\<close>. \<open>ulp x\<close> is the spacing
  of the doubles around \<open>x\<close>, \<open>nearest x\<close> the magnitude of the double nearest to \<open>x\<close>.
\<close>

definition exponent :: "rat \<Rightarrow> int" where
  "exponent x = max (binade \<bar>x\<bar>) (- 1022)"

definition ulp :: "rat \<Rightarrow> rat" where
  "ulp x = power_int 2 (exponent x - 52)"

definition nearest :: "rat \<Rightarrow> rat" where
  "nearest x = of_int (round_half_even (\<bar>x\<bar> / ulp x)) * ulp x"

text \<open>
  Rounding to nearest, ties to even, which is what every arithmetic operation on
  doubles does to its exact result; a magnitude that rounds to \<open>2 ^ 1024\<close> overflows.
\<close>

definition round_double :: "rat \<Rightarrow> number" where
  "round_double x =
     (if x = 0 then Finite 0
      else if 2 ^ 1024 \<le> nearest x then (if 0 < x then PosInfinity else NegInfinity)
      else Finite (sgn x * nearest x))"

text \<open>\<^verbatim>\<open>x / y\<close> for a finite \<open>x\<close>.\<close>

definition js_divide :: "rat \<Rightarrow> number \<Rightarrow> number" where
  "js_divide x y =
     (case y of
        NaN \<Rightarrow> NaN
      | PosInfinity \<Rightarrow> Finite 0
      | NegInfinity \<Rightarrow> Finite 0
      | Finite d \<Rightarrow>
          if d = 0 then (if x = 0 then NaN else if 0 < x then PosInfinity else NegInfinity)
          else round_double (x / d))"

text \<open>\<^verbatim>\<open>x >= t\<close> for a finite \<open>t\<close>, and \<^verbatim>\<open>!x\<close>.\<close>

fun js_ge :: "number \<Rightarrow> rat \<Rightarrow> bool" where
  "js_ge NaN t = False"
| "js_ge PosInfinity t = True"
| "js_ge NegInfinity t = False"
| "js_ge (Finite x) t = (t \<le> x)"

fun falsy_number :: "number \<Rightarrow> bool" where
  "falsy_number NaN = True"
| "falsy_number PosInfinity = False"
| "falsy_number NegInfinity = False"
| "falsy_number (Finite x) = (x = 0)"

text \<open>\<^verbatim>\<open>x || 0\<close>.\<close>

definition number_or_zero :: "number \<Rightarrow> number" where
  "number_or_zero x = (if falsy_number x then Finite 0 else x)"

section \<open>Tracker: macro substitution\<close>

text \<open>
  What one call of \<^verbatim>\<open>replaceMacros\<close> reads from its surroundings: \<^verbatim>\<open>Date.now()\<close>, the
  three \<^verbatim>\<open>Math.floor(Math.random() * 1000000000)\<close> draws in the order of the table, the
  user agent and the location of the page; \<open>isoString\<close> is \<^verbatim>\<open>new Date().toISOString()\<close>
  as \<^verbatim>\<open>fireTracker\<close> reads it.
\<close>

record macro_env =
  now :: nat
  random_cachebusters :: nat
  random_cachebuster :: nat
  random_random :: nat
  userAgent :: string
  location_href :: string
  location_hostname :: string
  isoString :: string

text \<open>
  The context object. A field that is absent, or empty, is the empty string here: both
  are falsy, and \<^verbatim>\<open>context.f || d\<close> yields \<open>d\<close> for either. A numeric width or height
  is held by its decimal digits, which is what \<^verbatim>\<open>replace\<close> turns it into.
\<close>

record macro_context =
  videoTime :: string
  assetURI :: string
  playerWidth :: string
  playerHeight :: string
  playerSize :: string

definition empty_context :: macro_context where
  "empty_context =
     \<lparr>videoTime = [], assetURI = [], playerWidth = [], playerHeight = [], playerSize = []\<rparr>"

definition js_or :: "string \<Rightarrow> string \<Rightarrow> string" where
  "js_or s d = (if s = [] then d else s)"

text \<open>The table \<^verbatim>\<open>macros\<close>, in the order \<^verbatim>\<open>Object.entries\<close> walks it.\<close>

definition macros :: "macro_env \<Rightarrow> macro_context \<Rightarrow> (string \<times> string) list" where
  "macros env context =
     [(''[TIMESTAMP]'', string_of_nat (now env)),
      (''[CACHEBUSTERS]'', string_of_nat (random_cachebusters env)),
      (''[CACHEBUSTER]'', string_of_nat (random_cachebuster env)),
      (''[CONTENTPLAYHEAD]'', js_or (videoTime context) ''00:00:00.000''),
      (''[ASSETURI]'', js_or (assetURI context) []),
      (''[DEVICEID]'', []),
      (''[DEVICEUA]'', encodeURIComponent (js_or (userAgent env) [])),
      (''[LIMITADTRACKING]'', ''0''),
      (''[PLAYERNAME]'', ''VAST-Inspector''),
      (''[PLAYERWIDTH]'', js_or (playerWidth context) []),
      (''[PLAYERHEIGHT]'', js_or (playerHeight context) []),
      (''[PLAYERSIZE]'', js_or (playerSize context) []),
      (''[RANDOM]'', string_of_nat (random_random env)),
      (''[PAGEURL]'', encodeURIComponent (location_href env)),
      (''[DOMAIN]'', encodeURIComponent (location_hostname env))]"

definition replaceMacros :: "macro_env \<Rightarrow> string \<Rightarrow> macro_context \<Rightarrow> string" where
  "replaceMacros env url context =
     (if url = [] then url
      else foldl (\<lambda>replacedURL (macro, v). js_replace_gi macro v replacedURL) url
             (macros env context))"

section \<open>Tracker: the firing ledger\<close>

datatype fire_status = success | failed

text \<open>An entry of \<^verbatim>\<open>trackingLog\<close>. The failure branch writes no \<^verbatim>\<open>originalURL\<close>.\<close>

record firing_record =
  log_url :: string
  log_originalURL :: "string option"
  log_type :: string
  log_event :: "string option"
  log_timestamp :: string
  log_status :: fire_status
  log_error :: "string option"

text \<open>
  \<^verbatim>\<open>fireTracker\<close> is an \<^verbatim>\<open>async\<close> function: a call runs up to
  \<^verbatim>\<open>await this.sendTracking(processedURL)\<close> and is suspended there with its local
  variables; the rest of the body runs when the promise is settled, which is never
  before the code that made the call has run to its end.
\<close>

record suspended_fire =
  sf_url :: string
  sf_type :: string
  sf_event :: "string option"
  sf_timestamp :: string
  sf_processedURL :: string

text \<open>
  The two fields of the class, and beside them what the browser holds for it: the image
  requests made by \<^verbatim>\<open>img.src = url\<close>, oldest first, and the suspended calls.
\<close>

record tracker =
  firedTrackers :: "string set"
  trackingLog :: "firing_record list"
  image_requests :: "string list"
  awaiting :: "suspended_fire list"

definition new_tracker :: tracker where
  "new_tracker =
     \<lparr>firedTrackers = {}, trackingLog = [], image_requests = [], awaiting = []\<rparr>"

text \<open>
  \<^verbatim>\<open>sendTracking\<close>: the promise is settled by whichever comes first of the image's
  \<^verbatim>\<open>onload\<close>, its \<^verbatim>\<open>onerror\<close> and the timer of 5000 ms.
\<close>

datatype image_outcome = img_onload | img_onerror | timeout_5000

datatype settlement = Resolved bool | Rejected string

definition sendTracking :: "string \<Rightarrow> tracker \<Rightarrow> tracker" where
  "sendTracking u t = t\<lparr>image_requests := image_requests t @ [u]\<rparr>"

fun sendTracking_settled :: "image_outcome \<Rightarrow> settlement" where
  "sendTracking_settled img_onload = Resolved True"
| "sendTracking_settled img_onerror = Resolved True"
| "sendTracking_settled timeout_5000 = Resolved True"

text \<open>
  \<^verbatim>\<open>fireTracker\<close> up to the \<^verbatim>\<open>await\<close>. The result \<open>Some False\<close> is the
  immediate \<^verbatim>\<open>return false\<close>; \<open>None\<close> says that the call is suspended.
\<close>

definition fireTracker ::
  "macro_env \<Rightarrow> string \<Rightarrow> string \<Rightarrow> string option \<Rightarrow> macro_context \<Rightarrow> tracker
     \<Rightarrow> bool option \<times> tracker" where
  "fireTracker env u ty ev context t =
     (if u = [] \<or> u \<in> firedTrackers t then (Some False, t)
      else
        let timestamp = isoString env;
            processedURL = replaceMacros env u context;
            t' = sendTracking processedURL t
        in (None,
            t'\<lparr>awaiting := awaiting t' @
                 [\<lparr>sf_url = u, sf_type = ty, sf_event = ev, sf_timestamp = timestamp,
                   sf_processedURL = processedURL\<rparr>]\<rparr>))"

text \<open>
  The rest of the body, run when the promise is settled: behind the \<^verbatim>\<open>await\<close> when it
  is resolved, the \<^verbatim>\<open>catch\<close> block (with the time read there) when it is rejected.
\<close>

fun fireTracker_resume ::
  "settlement \<Rightarrow> string \<Rightarrow> suspended_fire \<Rightarrow> tracker \<Rightarrow> bool \<times> tracker" where
  "fireTracker_resume (Resolved b) catch_time c t =
     (True,
      t\<lparr>firedTrackers := insert (sf_url c) (firedTrackers t),
        trackingLog := trackingLog t @
          [\<lparr>log_url = sf_processedURL c, log_originalURL = Some (sf_url c),
            log_type = sf_type c, log_event = sf_event c, log_timestamp = sf_timestamp c,
            log_status = success, log_error = None\<rparr>]\<rparr>)"
| "fireTracker_resume (Rejected message) catch_time c t =
     (False,
      t\<lparr>trackingLog := trackingLog t @
          [\<lparr>log_url = sf_url c, log_originalURL = None,
            log_type = sf_type c, log_event = sf_event c, log_timestamp = catch_time,
            log_status = failed, log_error = Some message\<rparr>]\<rparr>)"

text \<open>The event loop settles the request of the \<open>i\<close>-th suspended call.\<close>

definition settle :: "nat \<Rightarrow> image_outcome \<Rightarrow> string \<Rightarrow> tracker \<Rightarrow> tracker" where
  "settle i outcome catch_time t =
     (if i < length (awaiting t) then
        snd (fireTracker_resume (sendTracking_settled outcome) catch_time (awaiting t ! i)
               (t\<lparr>awaiting := take i (awaiting t) @ drop (Suc i) (awaiting t)\<rparr>))
      else t)"

text \<open>
  One call of \<^verbatim>\<open>fireTracker\<close> awaited on its own, with nothing running in between.
\<close>

definition fireTracker_awaited ::
  "macro_env \<Rightarrow> string \<Rightarrow> string \<Rightarrow> string option \<Rightarrow> macro_context \<Rightarrow> image_outcome
     \<Rightarrow> string \<Rightarrow> tracker \<Rightarrow> bool \<times> tracker" where
  "fireTracker_awaited env u ty ev context outcome catch_time t =
     (case fireTracker env u ty ev context t of
        (Some b, t') \<Rightarrow> (b, t')
      | (None, t') \<Rightarrow>
          fireTracker_resume (sendTracking_settled outcome) catch_time (last (awaiting t'))
            (t'\<lparr>awaiting := butlast (awaiting t')\<rparr>))"

subsection \<open>The catalog of tracking URLs and the batch helpers\<close>

datatype impression = ImpressionString string | ImpressionObject string "string option"

fun impression_url :: "impression \<Rightarrow> string" where
  "impression_url (ImpressionString s) = s"
| "impression_url (ImpressionObject u i) = u"

record click =
  click_type :: "string option"
  click_url :: string

record tracking =
  trk_event :: string
  trk_url :: string
  trk_fired :: bool

record trackingURLs =
  impressions :: "impression list"
  clicks :: "click list"
  tracking :: "tracking list"
  errors :: "string list"

text \<open>
  The helpers call \<^verbatim>\<open>fireTracker\<close> for every entry inside \<^verbatim>\<open>map\<close>, so all the
  calls reach their \<^verbatim>\<open>await\<close> before any of them is resumed. Every call reads the
  clock and the random numbers anew: \<open>envs i\<close> is what the call for the \<open>i\<close>-th
  entry reads.
\<close>

definition fireImpressions ::
  "(nat \<Rightarrow> macro_env) \<Rightarrow> impression list \<Rightarrow> macro_context \<Rightarrow> tracker \<Rightarrow> tracker" where
  "fireImpressions envs impressionURLs context t =
     fold (\<lambda>(i, imp) t'. snd (fireTracker (envs i) (impression_url imp) ''impression'' None context t'))
       (enumerate 0 impressionURLs) t"

definition fireClicks ::
  "(nat \<Rightarrow> macro_env) \<Rightarrow> click list \<Rightarrow> macro_context \<Rightarrow> tracker \<Rightarrow> tracker" where
  "fireClicks envs clickURLs context t =
     fold (\<lambda>(i, c) t'. snd (fireTracker (envs i) (click_url c) ''click'' (click_type c) context t'))
       (enumerate 0 clickURLs) t"

definition fireEventTrackers ::
  "(nat \<Rightarrow> macro_env) \<Rightarrow> string \<Rightarrow> tracking list \<Rightarrow> macro_context \<Rightarrow> tracker \<Rightarrow> tracker" where
  "fireEventTrackers envs ev trackingURLs context t =
     fold (\<lambda>(i, tr) t'. snd (fireTracker (envs i) (trk_url tr) ''event'' (Some ev) context t'))
       (enumerate 0 (filter (\<lambda>tr. trk_event tr = ev) trackingURLs)) t"

definition hasFired :: "string \<Rightarrow> tracker \<Rightarrow> bool" where
  "hasFired u t \<longleftrightarrow> u \<in> firedTrackers t"

definition tracker_reset :: "tracker \<Rightarrow> tracker" where
  "tracker_reset t = t\<lparr>firedTrackers := {}, trackingLog := []\<rparr>"

section \<open>VASTParser: the ad model and the classification of media files\<close>

text \<open>
  A \<^verbatim>\<open>MediaFile\<close> element as \<^verbatim>\<open>parseLinear\<close> reads it: \<^verbatim>\<open>getAttribute\<close> gives
  \<open>None\<close> for a missing attribute, \<open>at_text\<close> is the trimmed text content.
\<close>

record mediaFile_element =
  at_id :: "string option"
  at_delivery :: "string option"
  at_type :: "string option"
  at_width :: "string option"
  at_height :: "string option"
  at_codec :: "string option"
  at_bitrate :: "string option"
  at_apiFramework :: "string option"
  at_text :: string

text \<open>
  The media file object. \<open>isSIMID\<close> and \<open>isInteractive\<close> are the two properties
  that the selection of the later revision of the player reads; \<^verbatim>\<open>parseLinear\<close> does
  not write them, and a property that is not there reads as \<^verbatim>\<open>undefined\<close>, which is
  falsy.
\<close>

record mediaFile =
  mf_id :: "string option"
  mf_delivery :: string
  mf_type :: "string option"
  mf_width :: "string option"
  mf_height :: "string option"
  mf_codec :: "string option"
  mf_bitrate :: "string option"
  mf_apiFramework :: "string option"
  isVPAID :: bool
  isSIMID :: bool
  isInteractive :: bool
  mf_url :: string

text \<open>\<^verbatim>\<open>x || d\<close> on an attribute: a missing and an empty attribute both give \<open>d\<close>.\<close>

definition attr_or_null :: "string option \<Rightarrow> string option" where
  "attr_or_null a = (case a of None \<Rightarrow> None | Some v \<Rightarrow> if v = [] then None else Some v)"

definition attr_or :: "string option \<Rightarrow> string \<Rightarrow> string" where
  "attr_or a d = (case a of None \<Rightarrow> d | Some v \<Rightarrow> if v = [] then d else v)"

text \<open>The body of the loop over the media files in \<^verbatim>\<open>parseLinear\<close>.\<close>

definition parseMediaFile :: "mediaFile_element \<Rightarrow> mediaFile" where
  "parseMediaFile mf =
     (let apiFramework = at_apiFramework mf;
          ty = attr_or_null (at_type mf);
          vpaid = (apiFramework = Some ''VPAID''
                   \<or> ty = Some ''application/x-shockwave-flash''
                   \<or> ty = Some ''application/javascript'')
      in \<lparr>mf_id = attr_or_null (at_id mf),
          mf_delivery = attr_or (at_delivery mf) ''progressive'',
          mf_type = ty,
          mf_width = attr_or_null (at_width mf),
          mf_height = attr_or_null (at_height mf),
          mf_codec = attr_or_null (at_codec mf),
          mf_bitrate = attr_or_null (at_bitrate mf),
          mf_apiFramework = attr_or_null apiFramework,
          isVPAID = vpaid,
          isSIMID = False,
          isInteractive = False,
          mf_url = at_text mf\<rparr>)"

text \<open>The parts of the parsed document that the player reads.\<close>

record linear =
  lin_duration :: "string option"
  skipoffset :: "string option"
  mediaFiles :: "mediaFile list"
  clickThrough :: "string option"

datatype creative_data = Linear linear | NonLinear | Companion

record creative =
  cr_id :: "string option"
  cr_sequence :: "string option"
  cr_data :: "creative_data option"

definition creative_type :: "creative \<Rightarrow> string option" where
  "creative_type c =
     (case cr_data c of
        None \<Rightarrow> None
      | Some (Linear l) \<Rightarrow> Some ''linear''
      | Some NonLinear \<Rightarrow> Some ''nonlinear''
      | Some Companion \<Rightarrow> Some ''companion'')"

record inline =
  adSystem :: "string option"
  adTitle :: "string option"
  creatives :: "creative list"

datatype ad_body = InLine inline | Wrapper "string option" | NoBody

record ad =
  ad_id :: string
  ad_sequence :: "string option"
  ad_body :: ad_body

definition ad_type :: "ad \<Rightarrow> string option" where
  "ad_type a =
     (case ad_body a of
        InLine i \<Rightarrow> Some ''inline''
      | Wrapper u \<Rightarrow> Some ''wrapper''
      | NoBody \<Rightarrow> None)"

record vastData =
  ads :: "ad list"
  version :: string

section \<open>VideoPlayer\<close>

text \<open>
  The media element, as far as the player reads and writes it. The position is a finite
  number of seconds. The duration is \<^verbatim>\<open>NaN\<close> when it is not known and infinite for
  a stream without an end. The thresholds 0.25, 0.5 and 0.75 are doubles, and as such
  the rationals of these names.
\<close>

record video =
  src :: string
  currentTime :: rat
  duration :: number
  ended :: bool
  paused :: bool
  muted :: bool
  volume :: rat
  clientWidth :: nat
  clientHeight :: nat
  canPlayType :: "string \<Rightarrow> bool"

record quartilesFired =
  start :: bool
  firstQuartile :: bool
  midpoint :: bool
  thirdQuartile :: bool
  complete :: bool

definition no_quartiles :: quartilesFired where
  "no_quartiles =
     \<lparr>start = False, firstQuartile = False, midpoint = False, thirdQuartile = False,
      complete = False\<rparr>"

text \<open>An entry of \<^verbatim>\<open>eventLog\<close>, without its wall-clock time.\<close>

record player_event =
  ev_type :: string
  ev_message :: string
  ev_currentTime :: rat

record videoPlayer =
  video :: video
  tracker :: tracker
  vastData :: "vastData option"
  trackingURLs :: "trackingURLs option"
  quartilesFired :: quartilesFired
  eventLog :: "player_event list"
  listeners :: "string list"

definition new_videoPlayer :: "video \<Rightarrow> tracker \<Rightarrow> videoPlayer" where
  "new_videoPlayer v t =
     \<lparr>video = v, tracker = t, vastData = None, trackingURLs = None,
      quartilesFired = no_quartiles, eventLog = [], listeners = []\<rparr>"

definition logEvent :: "string \<Rightarrow> string \<Rightarrow> videoPlayer \<Rightarrow> videoPlayer" where
  "logEvent ty message p =
     p\<lparr>eventLog := eventLog p @
          [\<lparr>ev_type = ty, ev_message = message, ev_currentTime = currentTime (video p)\<rparr>]\<rparr>"

text \<open>
  \<^verbatim>\<open>selectMediaFile\<close> of \<^verbatim>\<open>src/video-player.js\<close>: the loop over the preferred
  types, and behind it the first file there is.
\<close>

fun select_preferred :: "video \<Rightarrow> mediaFile list \<Rightarrow> string list \<Rightarrow> mediaFile option" where
  "select_preferred v files [] = (case files of [] \<Rightarrow> None | f # fs \<Rightarrow> Some f)"
| "select_preferred v files (ty # tys) =
     (case List.find (\<lambda>mf. mf_type mf = Some ty) files of
        Some file \<Rightarrow> if canPlayType v ty then Some file else select_preferred v files tys
      | None \<Rightarrow> select_preferred v files tys)"

definition selectMediaFile :: "video \<Rightarrow> mediaFile list \<Rightarrow> mediaFile option" where
  "selectMediaFile v files =
     select_preferred v files [''video/mp4'', ''video/webm'', ''video/ogg'']"

text \<open>
  \<^verbatim>\<open>selectMediaFile\<close> of the later revision of the player, which looks for an
  interactive file first.
\<close>

definition selectMediaFile_interactive :: "video \<Rightarrow> mediaFile list \<Rightarrow> mediaFile option" where
  "selectMediaFile_interactive v files =
     (case List.find (\<lambda>mf. isSIMID mf \<and> isInteractive mf) files of
        Some simidFile \<Rightarrow> Some simidFile
      | None \<Rightarrow> selectMediaFile v files)"

definition event_names :: "string list" where
  "event_names =
     [''loadedmetadata'', ''play'', ''pause'', ''ended'', ''error'', ''timeupdate'',
      ''volumechange'', ''click'']"

definition removeEventListeners :: "videoPlayer \<Rightarrow> videoPlayer" where
  "removeEventListeners p = p\<lparr>listeners := []\<rparr>"

definition setupEventListeners :: "videoPlayer \<Rightarrow> videoPlayer" where
  "setupEventListeners p = (removeEventListeners p)\<lparr>listeners := event_names\<rparr>"

text \<open>
  \<^verbatim>\<open>loadAd\<close>. The impressions are fired without a context, which is the empty one.
\<close>

definition loadAd ::
  "(nat \<Rightarrow> macro_env) \<Rightarrow> vastData \<Rightarrow> trackingURLs \<Rightarrow> videoPlayer \<Rightarrow> bool \<times> videoPlayer" where
  "loadAd envs vd turls p0 =
     (let p = p0\<lparr>vastData := Some vd, trackingURLs := Some turls,
                 quartilesFired := no_quartiles\<rparr>
      in case List.find (\<lambda>a. ad_type a = Some ''inline'') (ads vd) of
           None \<Rightarrow> (False, logEvent ''error'' ''No inline ad found in VAST'' p)
         | Some a \<Rightarrow>
             (case ad_body a of
                InLine inl \<Rightarrow>
                  (case List.find (\<lambda>c. creative_type c = Some ''linear'') (creatives inl) of
                     None \<Rightarrow> (False, logEvent ''error'' ''No linear creative found'' p)
                   | Some c \<Rightarrow>
                       (case cr_data c of
                          Some (Linear lin) \<Rightarrow>
                            (case selectMediaFile (video p) (mediaFiles lin) of
                               None \<Rightarrow>
                                 (False, logEvent ''error'' ''No compatible media file found'' p)
                             | Some mediaFile \<Rightarrow>
                                 (let p1 = p\<lparr>video := (video p)\<lparr>src := mf_url mediaFile\<rparr>\<rparr>;
                                      p2 = setupEventListeners p1;
                                      p3 = logEvent ''ad-loaded''
                                             (''Ad loaded: '' @ attr_or (adTitle inl) ''Untitled'') p2
                                  in (True,
                                      p3\<lparr>tracker := fireImpressions envs (impressions turls)
                                                       empty_context (tracker p3)\<rparr>)))
                        | _ \<Rightarrow> (False, logEvent ''error'' ''No linear creative found'' p)))
              | _ \<Rightarrow> (False, logEvent ''error'' ''No inline ad found in VAST'' p)))"

text \<open>
  The handlers. Each of them reads \<^verbatim>\<open>this.trackingURLs.tracking\<close>; when no ad is
  loaded that read throws, and the handler ends there with what it has done so far.
\<close>

definition onPlay :: "(nat \<Rightarrow> macro_env) \<Rightarrow> videoPlayer \<Rightarrow> videoPlayer" where
  "onPlay envs p0 =
     (let p = logEvent ''play'' ''Video started playing'' p0
      in if \<not> start (quartilesFired p) then
           (case trackingURLs p of
              None \<Rightarrow> p
            | Some turls \<Rightarrow>
                logEvent ''tracking'' ''Fired start tracking''
                  (p\<lparr>tracker := fireEventTrackers envs ''start'' (tracking turls) empty_context
                                   (tracker p),
                     quartilesFired := (quartilesFired p)\<lparr>start := True\<rparr>\<rparr>))
         else p)"

definition onPause :: "(nat \<Rightarrow> macro_env) \<Rightarrow> videoPlayer \<Rightarrow> videoPlayer" where
  "onPause envs p0 =
     (if \<not> ended (video p0) then
        (let p = logEvent ''pause'' ''Video paused'' p0
         in case trackingURLs p of
              None \<Rightarrow> p
            | Some turls \<Rightarrow>
                p\<lparr>tracker := fireEventTrackers envs ''pause'' (tracking turls) empty_context
                                (tracker p)\<rparr>)
      else p0)"

definition onEnded :: "(nat \<Rightarrow> macro_env) \<Rightarrow> videoPlayer \<Rightarrow> videoPlayer" where
  "onEnded envs p0 =
     (let p = logEvent ''ended'' ''Video completed'' p0
      in if \<not> complete (quartilesFired p) then
           (case trackingURLs p of
              None \<Rightarrow> p
            | Some turls \<Rightarrow>
                logEvent ''tracking'' ''Fired complete tracking''
                  (p\<lparr>tracker := fireEventTrackers envs ''complete'' (tracking turls)
                                   empty_context (tracker p),
                     quartilesFired := (quartilesFired p)\<lparr>complete := True\<rparr>\<rparr>))
         else p)"

text \<open>
  \<^verbatim>\<open>onTimeUpdate\<close>. \<^verbatim>\<open>!this.video.duration\<close> holds for a duration that is zero or
  not known. The progress is the quotient of two doubles, which is a double.
\<close>

definition onTimeUpdate :: "(nat \<Rightarrow> macro_env) \<Rightarrow> videoPlayer \<Rightarrow> videoPlayer" where
  "onTimeUpdate envs p =
     (if falsy_number (duration (video p)) then p
      else
        let progress = js_divide (currentTime (video p)) (duration (video p))
        in if js_ge progress 0.25 \<and> \<not> firstQuartile (quartilesFired p) then
             (case trackingURLs p of
                None \<Rightarrow> p
              | Some turls \<Rightarrow>
                  logEvent ''tracking'' ''Fired first quartile tracking (25%)''
                    (p\<lparr>tracker := fireEventTrackers envs ''firstQuartile'' (tracking turls)
                                     empty_context (tracker p),
                       quartilesFired := (quartilesFired p)\<lparr>firstQuartile := True\<rparr>\<rparr>))
           else if js_ge progress 0.5 \<and> \<not> midpoint (quartilesFired p) then
             (case trackingURLs p of
                None \<Rightarrow> p
              | Some turls \<Rightarrow>
                  logEvent ''tracking'' ''Fired midpoint tracking (50%)''
                    (p\<lparr>tracker := fireEventTrackers envs ''midpoint'' (tracking turls)
                                     empty_context (tracker p),
                       quartilesFired := (quartilesFired p)\<lparr>midpoint := True\<rparr>\<rparr>))
           else if js_ge progress 0.75 \<and> \<not> thirdQuartile (quartilesFired p) then
             (case trackingURLs p of
                None \<Rightarrow> p
              | Some turls \<Rightarrow>
                  logEvent ''tracking'' ''Fired third quartile tracking (75%)''
                    (p\<lparr>tracker := fireEventTrackers envs ''thirdQuartile'' (tracking turls)
                                     empty_context (tracker p),
                       quartilesFired := (quartilesFired p)\<lparr>thirdQuartile := True\<rparr>\<rparr>))
           else p)"

text \<open>\<^verbatim>\<open>reset\<close>: \<^verbatim>\<open>this.pause()\<close> leaves the element paused.\<close>

definition reset :: "videoPlayer \<Rightarrow> videoPlayer" where
  "reset p =
     (removeEventListeners (p\<lparr>video := (video p)\<lparr>paused := True, src := []\<rparr>\<rparr>))
       \<lparr>vastData := None, trackingURLs := None, quartilesFired := no_quartiles\<rparr>"

text \<open>
  What the media element does to the player. An event reaches its handler only while
  the listener is registered. \<open>Play\<close> and \<open>Pause\<close> are the start of playback and a
  pause before the end; \<open>Timeupdate t\<close> is a position update at \<open>t\<close>. When playback
  reaches the end the element sets \<^verbatim>\<open>ended\<close> and dispatches \<^verbatim>\<open>pause\<close>
  (\<open>PauseAtEnd\<close>) and then \<^verbatim>\<open>ended\<close> (\<open>Ended\<close>).
\<close>

datatype media_event = Play | Pause | PauseAtEnd | Ended | Timeupdate rat

fun event_name :: "media_event \<Rightarrow> string" where
  "event_name Play = ''play''"
| "event_name Pause = ''pause''"
| "event_name PauseAtEnd = ''pause''"
| "event_name Ended = ''ended''"
| "event_name (Timeupdate t) = ''timeupdate''"

fun element_update :: "media_event \<Rightarrow> video \<Rightarrow> video" where
  "element_update Play v = v\<lparr>paused := False, ended := False\<rparr>"
| "element_update Pause v = v\<lparr>paused := True\<rparr>"
| "element_update PauseAtEnd v = v\<lparr>paused := True, ended := True\<rparr>"
| "element_update Ended v = v\<lparr>paused := True, ended := True\<rparr>"
| "element_update (Timeupdate t) v = v\<lparr>currentTime := t\<rparr>"

fun handler :: "(nat \<Rightarrow> macro_env) \<Rightarrow> media_event \<Rightarrow> videoPlayer \<Rightarrow> videoPlayer" where
  "handler envs Play p = onPlay envs p"
| "handler envs Pause p = onPause envs p"
| "handler envs PauseAtEnd p = onPause envs p"
| "handler envs Ended p = onEnded envs p"
| "handler envs (Timeupdate t) p = onTimeUpdate envs p"

definition dispatch :: "(nat \<Rightarrow> macro_env) \<Rightarrow> media_event \<Rightarrow> videoPlayer \<Rightarrow> videoPlayer" where
  "dispatch envs e p0 =
     (let p = p0\<lparr>video := element_update e (video p0)\<rparr>
      in if event_name e \<in> set (listeners p) then handler envs e p else p)"

definition play_through :: "(nat \<Rightarrow> macro_env) \<Rightarrow> media_event list \<Rightarrow> videoPlayer \<Rightarrow> videoPlayer" where
  "play_through envs es p = fold (dispatch envs) es p"

section \<open>SIMIDBridge\<close>

record environmentData =
  videoDimensions :: "nat \<times> nat"
  creativeDimensions :: "nat \<times> nat"
  env_fullscreen :: bool
  env_muted :: bool
  env_volume :: rat

record creativeData =
  adParameters :: string
  cd_duration :: number

record mediaState =
  ms_currentTime :: rat
  ms_duration :: number
  ms_muted :: bool
  ms_volume :: rat
  ms_paused :: bool
  ms_ended :: bool
  ms_fullscreen :: bool

datatype resolve_value =
  EmptyObject | InitData environmentData creativeData | MediaStateValue mediaState

datatype message_args =
  InitArgs environmentData creativeData string
| ResolveArgs "string option" resolve_value
| RejectArgs "string option" string
| VideoEventArgs string

text \<open>A message handed to \<^verbatim>\<open>postMessage\<close>.\<close>

record simid_message =
  msg_sessionId :: string
  msg_messageId :: string
  msg_type :: string
  msg_timestamp :: nat
  msg_args :: message_args

text \<open>
  What arrives in \<^verbatim>\<open>event.data\<close>: nothing (a falsy value), a string that
  \<^verbatim>\<open>JSON.parse\<close> rejects, the value \<^verbatim>\<open>null\<close>, or an object, of which the handlers
  read these properties. A property that is absent, or of another type than the
  handler asks for, is \<open>None\<close>.
\<close>

record incoming =
  in_type :: "string option"
  in_sessionId :: "string option"
  in_messageId :: "string option"
  in_trackingUrls :: "string list option"
  in_volume :: "rat option"

datatype event_data = NoData | NotJSON | JsonNull | JsonData incoming

text \<open>\<^verbatim>\<open>!x\<close> for a property that holds a string, if anything.\<close>

definition falsy :: "string option \<Rightarrow> bool" where
  "falsy x \<longleftrightarrow> x = None \<or> x = Some []"

text \<open>
  What a handler reads from its surroundings when it answers: the clock, the message
  identifier that \<^verbatim>\<open>generateMessageId\<close> makes, and whether the document is in
  fullscreen.
\<close>

record bridge_env =
  be_now :: nat
  be_messageId :: string
  be_fullscreen :: bool

text \<open>
  The bridge. \<open>creative\<close> says whether \<^verbatim>\<open>this.creative\<close> holds a window,
  \<open>listening\<close> whether the listener for \<^verbatim>\<open>message\<close> is registered, and \<open>posted\<close>
  is what has been handed to \<^verbatim>\<open>postMessage\<close>, oldest first.
\<close>

record simidBridge =
  b_video :: video
  b_tracker :: tracker
  b_trackingURLs :: "trackingURLs option"
  creative :: bool
  sessionId :: string
  isInitialized :: bool
  protocolVersion :: string
  environmentData :: environmentData
  creativeData :: creativeData
  listening :: bool
  posted :: "simid_message list"

definition nat_or :: "nat \<Rightarrow> nat \<Rightarrow> nat" where
  "nat_or n d = (if n = 0 then d else n)"

definition new_simidBridge :: "string \<Rightarrow> video \<Rightarrow> tracker \<Rightarrow> trackingURLs option \<Rightarrow> simidBridge" where
  "new_simidBridge sid v t turls =
     \<lparr>b_video = v, b_tracker = t, b_trackingURLs = turls, creative = False,
      sessionId = sid, isInitialized = False, protocolVersion = ''1.1'',
      environmentData =
        \<lparr>videoDimensions = (nat_or (clientWidth v) 640, nat_or (clientHeight v) 360),
         creativeDimensions = (nat_or (clientWidth v) 640, nat_or (clientHeight v) 360),
         env_fullscreen = False, env_muted = muted v, env_volume = volume v\<rparr>,
      creativeData =
        \<lparr>adParameters = [], cd_duration = number_or_zero (duration v)\<rparr>,
      listening = True, posted = []\<rparr>"

definition sendMessage :: "simid_message \<Rightarrow> simidBridge \<Rightarrow> simidBridge" where
  "sendMessage m b = (if \<not> creative b then b else b\<lparr>posted := posted b @ [m]\<rparr>)"

definition sendResolve :: "bridge_env \<Rightarrow> string option \<Rightarrow> resolve_value \<Rightarrow> simidBridge \<Rightarrow> simidBridge" where
  "sendResolve env messageId v b =
     sendMessage
       \<lparr>msg_sessionId = sessionId b, msg_messageId = be_messageId env, msg_type = ''resolve'',
        msg_timestamp = be_now env, msg_args = ResolveArgs messageId v\<rparr> b"

definition handleCreativeLoaded :: "bridge_env \<Rightarrow> incoming \<Rightarrow> simidBridge \<Rightarrow> simidBridge" where
  "handleCreativeLoaded env message b =
     sendResolve env (in_messageId message) EmptyObject (b\<lparr>isInitialized := True\<rparr>)"

definition handleInit :: "bridge_env \<Rightarrow> incoming \<Rightarrow> simidBridge \<Rightarrow> simidBridge" where
  "handleInit env message b =
     sendResolve env (in_messageId message) (InitData (environmentData b) (creativeData b)) b"

text \<open>
  \<^verbatim>\<open>handleStart\<close>, \<^verbatim>\<open>handleStop\<close>, \<^verbatim>\<open>handleSkip\<close> and \<^verbatim>\<open>handleFatal\<close> write to the
  console and answer.
\<close>

definition handleAcknowledge :: "bridge_env \<Rightarrow> incoming \<Rightarrow> simidBridge \<Rightarrow> simidBridge" where
  "handleAcknowledge env message b = sendResolve env (in_messageId message) EmptyObject b"

text \<open>
  \<^verbatim>\<open>handleReportTracking\<close> hands every reported URL to \<^verbatim>\<open>sendTracking\<close>.
\<close>

definition handleReportTracking :: "bridge_env \<Rightarrow> incoming \<Rightarrow> simidBridge \<Rightarrow> simidBridge" where
  "handleReportTracking env message b =
     sendResolve env (in_messageId message) EmptyObject
       (case in_trackingUrls message of
          None \<Rightarrow> b
        | Some us \<Rightarrow> b\<lparr>b_tracker := fold sendTracking us (b_tracker b)\<rparr>)"

definition handleRequestChangeVolume :: "bridge_env \<Rightarrow> incoming \<Rightarrow> simidBridge \<Rightarrow> simidBridge" where
  "handleRequestChangeVolume env message b =
     sendResolve env (in_messageId message) EmptyObject
       (case in_volume message of
          None \<Rightarrow> b
        | Some v \<Rightarrow>
            if v \<ge> 0 \<and> v \<le> 1 then b\<lparr>b_video := (b_video b)\<lparr>volume := v\<rparr>\<rparr> else b)"

definition handleRequestPause :: "bridge_env \<Rightarrow> incoming \<Rightarrow> simidBridge \<Rightarrow> simidBridge" where
  "handleRequestPause env message b =
     sendResolve env (in_messageId message) EmptyObject
       (b\<lparr>b_video := (b_video b)\<lparr>paused := True\<rparr>\<rparr>)"

definition handleRequestPlay :: "bridge_env \<Rightarrow> incoming \<Rightarrow> simidBridge \<Rightarrow> simidBridge" where
  "handleRequestPlay env message b =
     sendResolve env (in_messageId message) EmptyObject
       (b\<lparr>b_video := (b_video b)\<lparr>paused := False\<rparr>\<rparr>)"

text \<open>
  \<^verbatim>\<open>handleRequestSkip\<close> calls \<^verbatim>\<open>this.tracker.fireTracking\<close> when the catalog has a
  \<^verbatim>\<open>complete\<close> entry. The tracker has no method of that name, so the call throws and
  the handler ends before it answers.
\<close>

definition handleRequestSkip :: "bridge_env \<Rightarrow> incoming \<Rightarrow> simidBridge \<Rightarrow> simidBridge" where
  "handleRequestSkip env message b =
     (case b_trackingURLs b of
        None \<Rightarrow> sendResolve env (in_messageId message) EmptyObject b
      | Some turls \<Rightarrow>
          (case List.find (\<lambda>t. trk_event t = ''complete'') (tracking turls) of
             Some completeEvent \<Rightarrow> b
           | None \<Rightarrow> sendResolve env (in_messageId message) EmptyObject b))"

definition handleGetMediaState :: "bridge_env \<Rightarrow> incoming \<Rightarrow> simidBridge \<Rightarrow> simidBridge" where
  "handleGetMediaState env message b =
     sendResolve env (in_messageId message)
       (MediaStateValue
          \<lparr>ms_currentTime = currentTime (b_video b), ms_duration = duration (b_video b),
           ms_muted = muted (b_video b), ms_volume = volume (b_video b),
           ms_paused = paused (b_video b), ms_ended = ended (b_video b),
           ms_fullscreen = be_fullscreen env\<rparr>) b"

text \<open>The table \<^verbatim>\<open>messageHandlers\<close>.\<close>

definition messageHandlers ::
  "(string \<times> (bridge_env \<Rightarrow> incoming \<Rightarrow> simidBridge \<Rightarrow> simidBridge)) list" where
  "messageHandlers =
     [(''Session.creativeLoaded'', handleCreativeLoaded),
      (''Session.init'', handleInit),
      (''Session.start'', handleAcknowledge),
      (''Session.stop'', handleAcknowledge),
      (''Session.skip'', handleAcknowledge),
      (''Session.fatal'', handleAcknowledge),
      (''Creative.reportTracking'', handleReportTracking),
      (''Creative.requestChangeVolume'', handleRequestChangeVolume),
      (''Creative.requestPause'', handleRequestPause),
      (''Creative.requestPlay'', handleRequestPlay),
      (''Creative.requestSkip'', handleRequestSkip),
      (''Creative.getMediaState'', handleGetMediaState)]"

text \<open>
  \<^verbatim>\<open>onMessage\<close>. Reading \<^verbatim>\<open>data.type\<close> of \<^verbatim>\<open>null\<close> throws, which ends the handler
  as the \<^verbatim>\<open>return\<close> statements do. A type without an entry in the table is written
  to the console.
\<close>

definition onMessage :: "bridge_env \<Rightarrow> event_data \<Rightarrow> simidBridge \<Rightarrow> simidBridge" where
  "onMessage env event b =
     (case event of
        NoData \<Rightarrow> b
      | NotJSON \<Rightarrow> b
      | JsonNull \<Rightarrow> b
      | JsonData d \<Rightarrow>
          if falsy (in_type d) \<or> falsy (in_sessionId d) \<or> in_sessionId d \<noteq> Some (sessionId b)
          then b
          else
            (case in_type d of
               None \<Rightarrow> b
             | Some ty \<Rightarrow>
                 (case map_of messageHandlers ty of
                    Some h \<Rightarrow> h env d b
                  | None \<Rightarrow> b)))"

text \<open>The bridge after \<^verbatim>\<open>initializeCreative\<close> has found the window of the frame.\<close>

definition with_creative :: "simidBridge \<Rightarrow> simidBridge" where
  "with_creative b = b\<lparr>creative := True\<rparr>"

definition bridge_destroy :: "simidBridge \<Rightarrow> simidBridge" where
  "bridge_destroy b = b\<lparr>listening := False, creative := False\<rparr>"

section \<open>UIController: clearing\<close>

text \<open>\<^verbatim>\<open>clearAll\<close> resets the player and then the tracker.\<close>

definition clearAll :: "videoPlayer \<Rightarrow> videoPlayer" where
  "clearAll p = (reset p)\<lparr>tracker := tracker_reset (tracker (reset p))\<rparr>"

section \<open>Notions used to state the properties\<close>

subsection \<open>Placeholder tokens\<close>

definition bracket_free :: "string \<Rightarrow> bool" where
  "bracket_free s \<longleftrightarrow> CHR ''['' \<notin> set s \<and> CHR '']'' \<notin> set s"

text \<open>A bracketed token: an opening bracket, text without brackets, a closing bracket.\<close>

definition bracketed_token :: "string \<Rightarrow> bool" where
  "bracketed_token t \<longleftrightarrow>
     (case t of
        [] \<Rightarrow> False
      | c # r \<Rightarrow> c = CHR ''['' \<and> r \<noteq> [] \<and> last r = CHR '']'' \<and> bracket_free (butlast r))"

definition ci_equal :: "string \<Rightarrow> string \<Rightarrow> bool" where
  "ci_equal a b \<longleftrightarrow> map canonicalize a = map canonicalize b"

text \<open>The keys of the table \<^verbatim>\<open>macros\<close>.\<close>

definition macro_names :: "string list" where
  "macro_names =
     [''[TIMESTAMP]'', ''[CACHEBUSTERS]'', ''[CACHEBUSTER]'', ''[CONTENTPLAYHEAD]'',
      ''[ASSETURI]'', ''[DEVICEID]'', ''[DEVICEUA]'', ''[LIMITADTRACKING]'', ''[PLAYERNAME]'',
      ''[PLAYERWIDTH]'', ''[PLAYERHEIGHT]'', ''[PLAYERSIZE]'', ''[RANDOM]'', ''[PAGEURL]'',
      ''[DOMAIN]'']"

text \<open>
  A URL written as text and tokens in turn: \<open>s0\<close>, and behind it every token of \<open>ts\<close>
  followed by its text.
\<close>

definition interleave :: "string \<Rightarrow> (string \<times> string) list \<Rightarrow> string" where
  "interleave s0 ts = s0 @ concat (map (\<lambda>(t, s). t @ s) ts)"

subsection \<open>Requests\<close>

text \<open>
  The image requests that a batch over \<open>urls\<close> makes when \<open>fired\<close> is the set of the
  URLs recorded as fired: one for every URL that is not empty and not in the set.
\<close>

definition to_request ::
  "(nat \<Rightarrow> macro_env) \<Rightarrow> macro_context \<Rightarrow> string set \<Rightarrow> string list \<Rightarrow> string list" where
  "to_request envs context fired urls =
     map (\<lambda>(i, u). replaceMacros (envs i) u context)
       (filter (\<lambda>(i, u). u \<noteq> [] \<and> u \<notin> fired) (enumerate 0 urls))"

text \<open>The image requests made between two states of the tracker.\<close>

definition new_requests :: "tracker \<Rightarrow> tracker \<Rightarrow> string list" where
  "new_requests before after = drop (length (image_requests before)) (image_requests after)"

text \<open>
  The request of the \<open>i\<close>-th suspended call of the player's tracker is settled while
  the player stands.
\<close>

definition request_settles :: "nat \<Rightarrow> image_outcome \<Rightarrow> videoPlayer \<Rightarrow> videoPlayer" where
  "request_settles i outcome p = p\<lparr>tracker := settle i outcome [] (tracker p)\<rparr>"

text \<open>
  Every record of the log is for another raw URL, and each of these URLs is recorded as
  fired.
\<close>

definition recorded_once :: "tracker \<Rightarrow> bool" where
  "recorded_once t \<longleftrightarrow>
     distinct (map log_originalURL (trackingLog t))
     \<and> set (map log_originalURL (trackingLog t)) \<subseteq> Some ` firedTrackers t"

definition event_urls :: "string \<Rightarrow> trackingURLs \<Rightarrow> string list" where
  "event_urls ev turls = map trk_url (filter (\<lambda>tr. trk_event tr = ev) (tracking turls))"

text \<open>The messages of the entries of type \<^verbatim>\<open>tracking\<close> in the event log.\<close>

definition tracking_messages :: "videoPlayer \<Rightarrow> string list" where
  "tracking_messages p = map ev_message (filter (\<lambda>e. ev_type e = ''tracking'') (eventLog p))"

subsection \<open>Quartiles\<close>

datatype quartile = FirstQuartile | Midpoint | ThirdQuartile

fun threshold :: "quartile \<Rightarrow> rat" where
  "threshold FirstQuartile = 0.25"
| "threshold Midpoint = 0.5"
| "threshold ThirdQuartile = 0.75"

fun quartile_name :: "quartile \<Rightarrow> string" where
  "quartile_name FirstQuartile = ''firstQuartile''"
| "quartile_name Midpoint = ''midpoint''"
| "quartile_name ThirdQuartile = ''thirdQuartile''"

fun quartile_message :: "quartile \<Rightarrow> string" where
  "quartile_message FirstQuartile = ''Fired first quartile tracking (25%)''"
| "quartile_message Midpoint = ''Fired midpoint tracking (50%)''"
| "quartile_message ThirdQuartile = ''Fired third quartile tracking (75%)''"

fun quartile_fired :: "quartile \<Rightarrow> quartilesFired \<Rightarrow> bool" where
  "quartile_fired FirstQuartile f = firstQuartile f"
| "quartile_fired Midpoint f = midpoint f"
| "quartile_fired ThirdQuartile f = thirdQuartile f"

fun mark_fired :: "quartile \<Rightarrow> quartilesFired \<Rightarrow> quartilesFired" where
  "mark_fired FirstQuartile f = f\<lparr>firstQuartile := True\<rparr>"
| "mark_fired Midpoint f = f\<lparr>midpoint := True\<rparr>"
| "mark_fired ThirdQuartile f = f\<lparr>thirdQuartile := True\<rparr>"

text \<open>
  The progress as the handler computes it, and a threshold that this progress has
  reached and that has not fired.
\<close>

definition progress_of :: "video \<Rightarrow> number" where
  "progress_of v = js_divide (currentTime v) (duration v)"


definition reached_unfired :: "quartilesFired \<Rightarrow> number \<Rightarrow> quartile \<Rightarrow> bool" where
  "reached_unfired f progress q \<longleftrightarrow> js_ge progress (threshold q) \<and> \<not> quartile_fired q f"

text \<open>The lowest such threshold, and the highest.\<close>

definition lowest_reached_unfired :: "quartilesFired \<Rightarrow> number \<Rightarrow> quartile option" where
  "lowest_reached_unfired f progress =
     List.find (reached_unfired f progress) [FirstQuartile, Midpoint, ThirdQuartile]"

definition highest_reached_unfired :: "quartilesFired \<Rightarrow> number \<Rightarrow> quartile option" where
  "highest_reached_unfired f progress =
     List.find (reached_unfired f progress) [ThirdQuartile, Midpoint, FirstQuartile]"

text \<open>Firing one quartile: its trackers, its flag, its entry in the event log.\<close>

definition fire_quartile ::
  "(nat \<Rightarrow> macro_env) \<Rightarrow> quartile \<Rightarrow> trackingURLs \<Rightarrow> videoPlayer \<Rightarrow> videoPlayer" where
  "fire_quartile envs q turls p =
     logEvent ''tracking'' (quartile_message q)
       (p\<lparr>tracker := fireEventTrackers envs (quartile_name q) (tracking turls) empty_context
                        (tracker p),
          quartilesFired := mark_fired q (quartilesFired p)\<rparr>)"

text \<open>
  The position stream 0%, 10%, 26%, 51%, 76%, 100% of a duration \<open>d\<close>, between the
  start of playback and its end.
\<close>

definition position_stream :: "rat \<Rightarrow> media_event list" where
  "position_stream d =
     [Play, Timeupdate 0, Timeupdate (d * 10 / 100), Timeupdate (d * 26 / 100),
      Timeupdate (d * 51 / 100), Timeupdate (d * 76 / 100), Timeupdate d, Ended]"

subsection \<open>A sample ad\<close>

definition sample_env :: macro_env where
  "sample_env =
     \<lparr>now = 1700, random_cachebusters = 192, random_cachebuster = 847, random_random = 564,
      userAgent = ''UA/1.0'', location_href = ''https://i.example/'',
      location_hostname = ''i.example'', isoString = ''2025-11-21T00:00:00.000Z''\<rparr>"

definition sample_envs :: "nat \<Rightarrow> macro_env" where
  "sample_envs i = sample_env"

definition sample_video :: video where
  "sample_video =
     \<lparr>src = [], currentTime = 0, duration = Finite 30, ended = False, paused = True,
      muted = False, volume = 1, clientWidth = 640, clientHeight = 360,
      canPlayType = (\<lambda>ty. ty = ''video/mp4'')\<rparr>"

definition sample_mp4_element :: mediaFile_element where
  "sample_mp4_element =
     \<lparr>at_id = None, at_delivery = Some ''progressive'', at_type = Some ''video/mp4'',
      at_width = Some ''1920'', at_height = Some ''1080'', at_codec = None,
      at_bitrate = None, at_apiFramework = None, at_text = ''https://c.example/v.mp4''\<rparr>"

definition sample_mediaFile :: mediaFile where
  "sample_mediaFile = parseMediaFile sample_mp4_element"

definition sample_vast :: vastData where
  "sample_vast =
     \<lparr>ads = [\<lparr>ad_id = ''ad-0'', ad_sequence = None,
              ad_body = InLine \<lparr>adSystem = None, adTitle = Some ''T'',
                creatives = [\<lparr>cr_id = None, cr_sequence = None,
                  cr_data = Some (Linear \<lparr>lin_duration = Some ''00:00:30'', skipoffset = None,
                     mediaFiles = [sample_mediaFile], clickThrough = None\<rparr>)\<rparr>]\<rparr>\<rparr>],
      version = ''3.0''\<rparr>"

text \<open>One impression and one tracker for each of the five lifecycle events.\<close>

definition sample_catalog :: trackingURLs where
  "sample_catalog =
     \<lparr>impressions = [ImpressionObject ''https://t.example/imp'' None], clicks = [],
      tracking =
        [\<lparr>trk_event = ''start'', trk_url = ''https://t.example/s'', trk_fired = False\<rparr>,
         \<lparr>trk_event = ''firstQuartile'', trk_url = ''https://t.example/q1'', trk_fired = False\<rparr>,
         \<lparr>trk_event = ''midpoint'', trk_url = ''https://t.example/q2'', trk_fired = False\<rparr>,
         \<lparr>trk_event = ''thirdQuartile'', trk_url = ''https://t.example/q3'', trk_fired = False\<rparr>,
         \<lparr>trk_event = ''complete'', trk_url = ''https://t.example/c'', trk_fired = False\<rparr>,
         \<lparr>trk_event = ''pause'', trk_url = ''https://t.example/pa'', trk_fired = False\<rparr>],
      errors = []\<rparr>"

text \<open>A catalog in which the impression and the start tracker share one URL.\<close>

definition shared_catalog :: trackingURLs where
  "shared_catalog =
     \<lparr>impressions = [ImpressionObject ''https://t.example/p'' None], clicks = [],
      tracking = [\<lparr>trk_event = ''start'', trk_url = ''https://t.example/p'', trk_fired = False\<rparr>],
      errors = []\<rparr>"

definition sample_player :: videoPlayer where
  "sample_player = new_videoPlayer sample_video new_tracker"

text \<open>
  The sample ad loaded into a new player, then started, and then played to its end.
\<close>

definition sample_loaded :: videoPlayer where
  "sample_loaded = snd (loadAd sample_envs sample_vast sample_catalog sample_player)"

definition sample_started :: videoPlayer where
  "sample_started = play_through sample_envs [Play, Timeupdate 0] sample_loaded"

definition sample_completed :: videoPlayer where
  "sample_completed = play_through sample_envs (position_stream 30) sample_loaded"

text \<open>
  The sample ad played to its end while the requests of the impression and of
  \<^verbatim>\<open>start\<close> are open, then cleared, and the two requests settled by their timers
  behind the clearing.
\<close>

definition sample_resettled :: videoPlayer where
  "sample_resettled
     = request_settles 0 timeout_5000 (request_settles 0 timeout_5000 (clearAll sample_completed))"

text \<open>An interactive media file and a Flash one.\<close>

definition sample_simid_element :: mediaFile_element where
  "sample_simid_element =
     \<lparr>at_id = None, at_delivery = None, at_type = Some ''text/html'', at_width = None,
      at_height = None, at_codec = None, at_bitrate = None,
      at_apiFramework = Some ''SIMID-1.1'', at_text = ''https://c.example/i.html''\<rparr>"

definition sample_flash_element :: mediaFile_element where
  "sample_flash_element =
     \<lparr>at_id = None, at_delivery = None, at_type = Some ''application/x-shockwave-flash'',
      at_width = None, at_height = None, at_codec = None, at_bitrate = None,
      at_apiFramework = None, at_text = ''https://c.example/a.swf''\<rparr>"

definition sample_bridge :: simidBridge where
  "sample_bridge = with_creative (new_simidBridge ''simid_1700_abc'' sample_video new_tracker None)"

definition sample_bridge_env :: bridge_env where
  "sample_bridge_env = \<lparr>be_now = 1700, be_messageId = ''msg_1700_x'', be_fullscreen = False\<rparr>"

definition foreign_message :: incoming where
  "foreign_message =
     \<lparr>in_type = Some ''Session.creativeLoaded'', in_sessionId = Some ''simid_9_zzz'',
      in_messageId = Some ''m1'', in_trackingUrls = None, in_volume = None\<rparr>"



section \<open>Lemmas: scanning and matching\<close>

lemma canonicalize_open [simp]: "canonicalize c = CHR ''['' \<longleftrightarrow> c = CHR ''[''"
  by (auto simp add: canonicalize_def split: option.splits if_splits)

lemma canonicalize_close [simp]: "canonicalize c = CHR '']'' \<longleftrightarrow> c = CHR '']''"
  by (auto simp add: canonicalize_def split: option.splits if_splits)

lemma canonicalize_eq_open [simp]: "canonicalize CHR ''['' = canonicalize c \<longleftrightarrow> c = CHR ''[''"
  using canonicalize_open [of c] canonicalize_open [of "CHR ''[''"] by metis

lemma canonicalize_eq_close [simp]: "canonicalize CHR '']'' = canonicalize c \<longleftrightarrow> c = CHR '']''"
  using canonicalize_close [of c] canonicalize_close [of "CHR '']''"] by metis

lemma canonicalize_eq_open' [simp]: "canonicalize c = canonicalize CHR ''['' \<longleftrightarrow> c = CHR ''[''"
  using canonicalize_eq_open [of c] by metis

lemma canonicalize_eq_close' [simp]: "canonicalize c = canonicalize CHR '']'' \<longleftrightarrow> c = CHR '']''"
  using canonicalize_eq_close [of c] by metis

lemma ci_prefix_iff:
  "ci_prefix p s \<longleftrightarrow> length p \<le> length s \<and> map canonicalize p = map canonicalize (take (length p) s)"
  by (induction p s rule: ci_prefix.induct) auto

lemma macro_names_fst: "map fst (macros env context) = macro_names"
  by (simp add: macros_def macro_names_def)

lemma macro_names_bracketed: "\<forall>m \<in> set macro_names. bracketed_token m"
  by (simp add: macro_names_def bracketed_token_def bracket_free_def)

lemma js_replace_from_skip:
  "CHR ''['' \<notin> set s \<Longrightarrow>
     js_replace_from (CHR ''['' # ps) repl str position (s @ r)
       = s @ js_replace_from (CHR ''['' # ps) repl str (position + length s) r"
  by (induction s arbitrary: position) auto


lemma js_replace_from_no_open:
  "CHR ''['' \<notin> set s \<Longrightarrow> js_replace_from (CHR ''['' # ps) repl str position s = s"
  using js_replace_from_skip [of s ps repl str position "[]"] by simp

lemma replaceMacros_no_open:
  "CHR ''['' \<notin> set u \<Longrightarrow> replaceMacros env u context = u"
  by (simp add: replaceMacros_def macros_def js_replace_gi_def js_replace_from_no_open)

lemma bracketed_tokenD:
  assumes "bracketed_token t"
  obtains w where "t = CHR ''['' # w @ [CHR '']'']" and "bracket_free w"
proof -
  from assms obtain r where r: "t = CHR ''['' # r" "r \<noteq> []" "last r = CHR '']''"
    "bracket_free (butlast r)"
    by (auto simp add: bracketed_token_def split: list.splits)
  then have "t = CHR ''['' # butlast r @ [CHR '']'']"
    using append_butlast_last_id [of r] by simp
  with r(4) show thesis using that by blast
qed

lemma ci_prefix_extend: "ci_prefix p a \<Longrightarrow> ci_prefix p (a @ x)"
  by (induction p a rule: ci_prefix.induct) auto

lemma ci_prefix_inner:
  "bracket_free wp \<Longrightarrow> bracket_free wt \<Longrightarrow>
     ci_prefix (wp @ [CHR '']'']) (wt @ CHR '']'' # b) \<Longrightarrow> map canonicalize wp = map canonicalize wt"
proof (induction wp arbitrary: wt)
  case Nil
  then show ?case by (cases wt) (auto simp add: bracket_free_def)
next
  case (Cons p wp)
  then show ?case by (cases wt) (auto simp add: bracket_free_def)
qed

lemma no_match_at_unknown:
  assumes "bracketed_token p" and "bracketed_token t" and "\<not> ci_equal p t"
  shows "\<not> ci_prefix p (t @ b)"
proof
  assume m: "ci_prefix p (t @ b)"
  from assms(1) obtain wp where p: "p = CHR ''['' # wp @ [CHR '']'']" "bracket_free wp"
    by (rule bracketed_tokenD)
  from assms(2) obtain wt where t: "t = CHR ''['' # wt @ [CHR '']'']" "bracket_free wt"
    by (rule bracketed_tokenD)
  from m p t have "ci_prefix (wp @ [CHR '']'']) (wt @ CHR '']'' # b)" by simp
  then have "map canonicalize wp = map canonicalize wt"
    using p(2) t(2) by (rule ci_prefix_inner [rotated 2])
  then have "ci_equal p t" by (simp add: ci_equal_def p t)
  with assms(3) show False by simp
qed

lemma match_stays_left:
  "CHR ''['' \<notin> set q \<Longrightarrow> ci_prefix q (a @ CHR ''['' # r) \<Longrightarrow> length q \<le> length a"
proof (induction q arbitrary: a)
  case Nil
  then show ?case by simp
next
  case (Cons x q)
  then show ?case by (cases a) auto
qed

lemma ci_prefix_within:
  "ci_prefix p (a @ x) \<Longrightarrow> length p \<le> length a \<Longrightarrow> ci_prefix p a"
  by (simp add: ci_prefix_iff)

lemma js_replace_from_match:
  "s \<noteq> [] \<Longrightarrow> p \<noteq> [] \<Longrightarrow> ci_prefix p s \<Longrightarrow>
     js_replace_from p repl str position s
       = get_substitution (take (length p) s) str position repl
           @ js_replace_from p repl str (position + length p) (drop (length p) s)"
  by (cases s) (simp_all del: ci_prefix.simps)

lemma js_replace_from_no_match:
  "\<not> ci_prefix p (c # s) \<Longrightarrow>
     js_replace_from p repl str position (c # s) = c # js_replace_from p repl str (Suc position) s"
  by (simp del: ci_prefix.simps)

lemma pass_over_unknown:
  assumes p: "bracketed_token p" and t: "bracketed_token t" and u: "\<not> ci_equal p t"
  shows "js_replace_from p repl str position (a @ t @ b)
           = js_replace_from p repl str position a @ t
               @ js_replace_from p repl str (position + length a + length t) b"
proof (induction a arbitrary: position rule: length_induct)
  case (1 a)
  from p obtain wp where pw: "p = CHR ''['' # wp @ [CHR '']'']" "bracket_free wp"
    by (rule bracketed_tokenD)
  from t obtain wt where tw: "t = CHR ''['' # wt @ [CHR '']'']" "bracket_free wt"
    by (rule bracketed_tokenD)
  show ?case
  proof (cases a)
    case Nil
    have nm: "\<not> ci_prefix p (t @ b)" using p t u by (rule no_match_at_unknown)
    have "js_replace_from p repl str position (t @ b)
            = CHR ''['' # js_replace_from p repl str (Suc position) ((wt @ [CHR '']'']) @ b)"
      using nm by (simp add: tw)
    also have "js_replace_from p repl str (Suc position) ((wt @ [CHR '']'']) @ b)
            = (wt @ [CHR '']'']) @ js_replace_from p repl str (Suc position + length (wt @ [CHR '']''])) b"
      unfolding pw(1) using tw(2)
      by (intro js_replace_from_skip) (simp add: bracket_free_def)
    finally show ?thesis using Nil by (simp add: tw)
  next
    case (Cons c a')
    show ?thesis
    proof (cases "ci_prefix p (a @ t @ b)")
      case True
      have "CHR ''['' \<notin> set (wp @ [CHR '']''])" using pw(2) by (simp add: bracket_free_def)
      moreover have "ci_prefix (wp @ [CHR '']'']) (a' @ CHR ''['' # (wt @ [CHR '']'']) @ b)"
        using True by (simp add: pw Cons tw)
      ultimately have "length (wp @ [CHR '']'']) \<le> length a'" by (rule match_stays_left)
      then have len: "length p \<le> length a" by (simp add: pw Cons)
      have pa: "ci_prefix p a" using True len by (rule ci_prefix_within)
      have pne: "p \<noteq> []" by (simp add: pw)
      have shorter: "length (drop (length p) a) < length a" using pne Cons by simp
      from 1 shorter have ih:
        "js_replace_from p repl str (position + length p) (drop (length p) a @ t @ b)
           = js_replace_from p repl str (position + length p) (drop (length p) a) @ t
               @ js_replace_from p repl str
                   (position + length p + length (drop (length p) a) + length t) b"
        by blast
      have ane: "a \<noteq> []" using Cons by simp
      have l: "js_replace_from p repl str position (a @ t @ b)
                 = get_substitution (take (length p) a) str position repl
                     @ js_replace_from p repl str (position + length p)
                         (drop (length p) a @ t @ b)"
        using js_replace_from_match [of "a @ t @ b" p repl str position] True pne ane len
        by simp
      have r: "js_replace_from p repl str position a
                 = get_substitution (take (length p) a) str position repl
                     @ js_replace_from p repl str (position + length p) (drop (length p) a)"
        using ane pne pa by (rule js_replace_from_match)
      show ?thesis using l r ih len by simp
    next
      case False
      then have na: "\<not> ci_prefix p a" using ci_prefix_extend by blast
      from 1 Cons have ih:
        "js_replace_from p repl str (Suc position) (a' @ t @ b)
           = js_replace_from p repl str (Suc position) a' @ t
               @ js_replace_from p repl str (Suc position + length a' + length t) b"
        by simp
      have "js_replace_from p repl str position (c # a' @ t @ b)
              = c # js_replace_from p repl str (Suc position) (a' @ t @ b)"
        using False Cons by (intro js_replace_from_no_match) simp
      moreover have "js_replace_from p repl str position (c # a')
              = c # js_replace_from p repl str (Suc position) a'"
        using na Cons by (intro js_replace_from_no_match) simp
      ultimately show ?thesis using ih Cons by simp
    qed
  qed
qed

lemma unknown_survives_fold:
  assumes "bracketed_token t"
    and "\<forall>m \<in> set (map fst ms). bracketed_token m \<and> \<not> ci_equal m t"
  shows "\<exists>a' b'. foldl (\<lambda>replacedURL (macro, v). js_replace_gi macro v replacedURL) (a @ t @ b) ms
           = a' @ t @ b' \<and> (a = [] \<longrightarrow> a' = []) \<and> (b = [] \<longrightarrow> b' = [])"
  using assms(2)
proof (induction ms arbitrary: a b)
  case Nil
  then show ?case by auto
next
  case (Cons x ms)
  obtain m v where x: "x = (m, v)" by (cases x)
  from Cons.prems x have m: "bracketed_token m" "\<not> ci_equal m t" by auto
  define a1 where "a1 = js_replace_from m v (a @ t @ b) 0 a"
  define b1 where "b1 = js_replace_from m v (a @ t @ b) (0 + length a + length t) b"
  have step: "js_replace_gi m v (a @ t @ b) = a1 @ t @ b1"
    unfolding js_replace_gi_def a1_def b1_def using m(1) assms(1) m(2) by (rule pass_over_unknown)
  have e: "a = [] \<longrightarrow> a1 = []" "b = [] \<longrightarrow> b1 = []" by (simp_all add: a1_def b1_def)
  from Cons.prems have "\<forall>m \<in> set (map fst ms). bracketed_token m \<and> \<not> ci_equal m t" by simp
  from Cons.IH [OF this, of a1 b1] obtain a' b' where
    "foldl (\<lambda>replacedURL (macro, v). js_replace_gi macro v replacedURL) (a1 @ t @ b1) ms = a' @ t @ b'"
    "a1 = [] \<longrightarrow> a' = []" "b1 = [] \<longrightarrow> b' = []" by blast
  with step e x show ?case by auto
qed

subsection \<open>Evaluating a match\<close>

lemma canonicalize_lower:
  "canonicalize CHR ''a'' = CHR ''A''"
  "canonicalize CHR ''b'' = CHR ''B''"
  "canonicalize CHR ''c'' = CHR ''C''"
  "canonicalize CHR ''d'' = CHR ''D''"
  "canonicalize CHR ''e'' = CHR ''E''"
  "canonicalize CHR ''f'' = CHR ''F''"
  "canonicalize CHR ''g'' = CHR ''G''"
  "canonicalize CHR ''h'' = CHR ''H''"
  "canonicalize CHR ''i'' = CHR ''I''"
  "canonicalize CHR ''j'' = CHR ''J''"
  "canonicalize CHR ''k'' = CHR ''K''"
  "canonicalize CHR ''l'' = CHR ''L''"
  "canonicalize CHR ''m'' = CHR ''M''"
  "canonicalize CHR ''n'' = CHR ''N''"
  "canonicalize CHR ''o'' = CHR ''O''"
  "canonicalize CHR ''p'' = CHR ''P''"
  "canonicalize CHR ''q'' = CHR ''Q''"
  "canonicalize CHR ''r'' = CHR ''R''"
  "canonicalize CHR ''s'' = CHR ''S''"
  "canonicalize CHR ''t'' = CHR ''T''"
  "canonicalize CHR ''u'' = CHR ''U''"
  "canonicalize CHR ''v'' = CHR ''V''"
  "canonicalize CHR ''w'' = CHR ''W''"
  "canonicalize CHR ''x'' = CHR ''X''"
  "canonicalize CHR ''y'' = CHR ''Y''"
  "canonicalize CHR ''z'' = CHR ''Z''"
  by (simp_all add: canonicalize_def)

lemma canonicalize_other:
  "c \<notin> set ''abcdefghijklmnopqrstuvwxyz'' \<Longrightarrow> canonicalize c = c"
  by (auto simp add: canonicalize_def split: option.splits if_splits)

lemma ci_prefix_Cons_if:
  "ci_prefix (p # ps) (c # cs) = (if canonicalize p = canonicalize c then ci_prefix ps cs else False)"
  by simp

lemmas match_eval =
  replaceMacros_def macros_def js_replace_gi_def js_or_def canonicalize_lower canonicalize_other
  ci_prefix_Cons_if string_of_nat.simps digit_char_def

subsection \<open>One value for every spelling of a token\<close>

lemma get_substitution_plain:
  "CHR ''$'' \<notin> set v \<Longrightarrow> get_substitution matched str position v = v"
  by (induction matched str position v rule: get_substitution.induct) auto

lemma ci_equal_length: "ci_equal p t \<Longrightarrow> length t = length p"
  by (metis ci_equal_def length_map)

lemma ci_equal_prefix:
  assumes "ci_equal p t"
  shows "ci_prefix p (t @ r)"
proof -
  from assms have "length t = length p" by (rule ci_equal_length)
  with assms show ?thesis by (simp add: ci_prefix_iff ci_equal_def)
qed

lemma string_of_nat_digits: "set (string_of_nat n) \<subseteq> set ''0123456789''"
proof (induction n rule: string_of_nat.induct)
  case (1 n)
  have d: "\<And>k. k < 10 \<Longrightarrow> digit_char k \<in> set ''0123456789''"
    unfolding digit_char_def by (rule nth_mem) simp
  show ?case
  proof (cases "n < 10")
    case True
    then show ?thesis using d [of n] by (subst string_of_nat.simps) simp
  next
    case False
    have "n mod 10 < 10" by simp
    with 1 False d [of "n mod 10"] show ?thesis
      by (subst string_of_nat.simps) auto
  qed
qed

lemma string_of_nat_plain:
  "CHR ''$'' \<notin> set (string_of_nat n)" "CHR ''['' \<notin> set (string_of_nat n)"
  using string_of_nat_digits [of n] by auto

text \<open>A pass for another macro leaves such a URL as it is.\<close>

lemma pass_of_other_macro:
  assumes "bracketed_token p"
    and "\<forall>(t, s) \<in> set ts. bracketed_token t \<and> \<not> ci_equal p t \<and> CHR ''['' \<notin> set s"
    and "CHR ''['' \<notin> set s0"
  shows "js_replace_from p repl str position (interleave s0 ts) = interleave s0 ts"
  using assms(2,3)
proof (induction ts arbitrary: s0 position)
  case Nil
  from assms(1) obtain w where "p = CHR ''['' # w @ [CHR '']'']" by (rule bracketed_tokenD)
  with Nil show ?case by (simp add: interleave_def js_replace_from_no_open)
next
  case (Cons x ts)
  obtain t s where x: "x = (t, s)" by (cases x)
  from assms(1) obtain w where pw: "p = CHR ''['' # w @ [CHR '']'']" by (rule bracketed_tokenD)
  from Cons.prems x have t: "bracketed_token t" "\<not> ci_equal p t" "CHR ''['' \<notin> set s" by auto
  have i: "interleave s0 (x # ts) = s0 @ t @ interleave s ts" by (simp add: interleave_def x)
  have "js_replace_from p repl str position (s0 @ t @ interleave s ts)
          = js_replace_from p repl str position s0 @ t
              @ js_replace_from p repl str (position + length s0 + length t) (interleave s ts)"
    using assms(1) t(1,2) by (rule pass_over_unknown)
  moreover have "js_replace_from p repl str position s0 = s0"
    using Cons.prems(2) by (simp add: pw js_replace_from_no_open)
  moreover have "js_replace_from p repl str (position + length s0 + length t) (interleave s ts)
          = interleave s ts"
    using Cons.prems(1) t(3) by (intro Cons.IH) auto
  ultimately show ?case by (simp add: i)
qed

text \<open>The pass for the macro itself replaces every spelling by the value.\<close>

lemma pass_of_the_macro:
  assumes "bracketed_token p" and "CHR ''$'' \<notin> set v"
    and "\<forall>(t, s) \<in> set ts. ci_equal p t \<and> CHR ''['' \<notin> set s"
    and "CHR ''['' \<notin> set s0"
  shows "js_replace_from p v str position (interleave s0 ts)
           = interleave s0 (map (\<lambda>(t, s). (v, s)) ts)"
  using assms(3,4)
proof (induction ts arbitrary: s0 position)
  case Nil
  from assms(1) obtain w where "p = CHR ''['' # w @ [CHR '']'']" by (rule bracketed_tokenD)
  with Nil show ?case by (simp add: interleave_def js_replace_from_no_open)
next
  case (Cons x ts)
  obtain t s where x: "x = (t, s)" by (cases x)
  from assms(1) obtain w where pw: "p = CHR ''['' # w @ [CHR '']'']" by (rule bracketed_tokenD)
  from Cons.prems x have t: "ci_equal p t" "CHR ''['' \<notin> set s" by auto
  have pne: "p \<noteq> []" by (simp add: pw)
  have tne: "t @ interleave s ts \<noteq> []" using ci_equal_length [OF t(1)] pne by auto
  have i: "interleave s0 (x # ts) = s0 @ t @ interleave s ts" by (simp add: interleave_def x)
  have "js_replace_from p v str position (s0 @ t @ interleave s ts)
          = s0 @ js_replace_from p v str (position + length s0) (t @ interleave s ts)"
    using Cons.prems(2) unfolding pw by (rule js_replace_from_skip)
  also have "js_replace_from p v str (position + length s0) (t @ interleave s ts)
          = get_substitution (take (length p) (t @ interleave s ts)) str (position + length s0) v
              @ js_replace_from p v str (position + length s0 + length p)
                  (drop (length p) (t @ interleave s ts))"
    using tne pne ci_equal_prefix [OF t(1)] by (rule js_replace_from_match)
  also have "\<dots> = v @ js_replace_from p v str (position + length s0 + length p) (interleave s ts)"
    using ci_equal_length [OF t(1)] by (simp add: get_substitution_plain [OF assms(2)])
  also have "js_replace_from p v str (position + length s0 + length p) (interleave s ts)
          = interleave s (map (\<lambda>(t, s). (v, s)) ts)"
    using Cons.prems(1) t(2) by (intro Cons.IH) auto
  finally show ?case by (simp add: i interleave_def x)
qed


lemma canonicalize_brackets [simp]:
  "canonicalize CHR ''['' = CHR ''[''" "canonicalize CHR '']'' = CHR '']''"
  by (simp_all add: canonicalize_other)

lemma ci_equal_bracketed:
  assumes "bracketed_token p" and "ci_equal p t"
  shows "bracketed_token t"
proof -
  from assms(1) obtain w where p: "p = CHR ''['' # w @ [CHR '']'']" and w: "bracket_free w"
    by (rule bracketed_tokenD)
  from assms(2) have l: "length t = length p" by (rule ci_equal_length)
  then obtain c r where t: "t = c # r" by (cases t) (simp_all add: p)
  with l have "r \<noteq> []" by (auto simp add: p)
  then obtain r' z where r: "r = r' @ [z]" by (metis append_butlast_last_id)
  from assms(2) have e: "canonicalize c = CHR ''[''" "map canonicalize r' = map canonicalize w"
    "canonicalize z = CHR '']''"
    using l by (simp_all add: ci_equal_def p t r)
  have "bracket_free r'"
  proof -
    have "\<And>b. b \<in> {CHR ''['', CHR '']''} \<Longrightarrow> b \<in> set r' \<Longrightarrow> False"
    proof -
      fix b assume b: "b \<in> {CHR ''['', CHR '']''}" "b \<in> set r'"
      from b(1) have "canonicalize b = b" by auto
      with b(2) have "b \<in> set (map canonicalize r')" by force
      then have "b \<in> set (map canonicalize w)" by (simp only: e(2))
      then obtain x where x: "x \<in> set w" "canonicalize x = b" by auto
      from x(2) b(1) have "x = b" by auto
      with x(1) b(1) w show False by (auto simp add: bracket_free_def)
    qed
    then show ?thesis by (auto simp add: bracket_free_def)
  qed
  with e(1,3) show ?thesis by (simp add: bracketed_token_def t r)
qed

lemma macro_names_distinct: "distinct (map (map canonicalize) macro_names)"
  by (simp add: macro_names_def canonicalize_lower canonicalize_other)

lemma foldl_unchanged:
  "\<forall>(m, v) \<in> set ms. js_replace_gi m v u = u \<Longrightarrow>
     foldl (\<lambda>replacedURL (macro, v). js_replace_gi macro v replacedURL) u ms = u"
  by (induction ms) auto

text \<open>
  Where the value of a macro has no dollar sign and no opening bracket, every spelling
  of its token in a URL (with no other opening bracket in it) is replaced by that one
  value, whatever the context.
\<close>

lemma every_spelling_gets_the_value:
  assumes m: "(T, v) \<in> set (macros env context)"
    and v: "CHR ''$'' \<notin> set v" "CHR ''['' \<notin> set v"
    and s0: "CHR ''['' \<notin> set s0"
    and ts: "\<forall>(t, s) \<in> set ts. ci_equal T t \<and> CHR ''['' \<notin> set s"
  shows "replaceMacros env (interleave s0 ts) context = interleave s0 (map (\<lambda>(t, s). (v, s)) ts)"
proof -
  let ?step = "\<lambda>replacedURL (macro, v). js_replace_gi macro v replacedURL"
  let ?u = "interleave s0 ts"
  let ?u' = "interleave s0 (map (\<lambda>(t, s). (v, s)) ts)"
  from m obtain before after where split: "macros env context = before @ (T, v) # after"
    by (meson split_list)
  have names: "map fst (macros env context) = macro_names" by (rule macro_names_fst)
  have br: "\<And>p. p \<in> set macro_names \<Longrightarrow> bracketed_token p"
    using macro_names_bracketed by blast
  have T: "bracketed_token T"
    using br [of T] names m by (metis fst_conv image_eqI set_map)
  have d: "distinct (map (map canonicalize) (map fst before @ T # map fst after))"
    using macro_names_distinct names split by (metis fst_conv list.simps(9) map_append)
  have other: "\<And>p val. (p, val) \<in> set before \<Longrightarrow> bracketed_token p \<and> \<not> ci_equal p T"
  proof -
    fix p val assume b: "(p, val) \<in> set before"
    then have "p \<in> set (map fst before)" by force
    moreover from this have "p \<in> set macro_names"
      using names split by (metis UnCI map_append set_append)
    ultimately have pm: "p \<in> set (map fst before)" "p \<in> set macro_names" by simp_all
    from d have "map canonicalize T \<notin> set (map (map canonicalize) (map fst before))" by simp
    moreover from pm(1)
    have "map canonicalize p \<in> set (map (map canonicalize) (map fst before))" by auto
    ultimately have "map canonicalize p \<noteq> map canonicalize T" by metis
    with br [OF pm(2)] show "bracketed_token p \<and> \<not> ci_equal p T" by (simp add: ci_equal_def)
  qed
  have before: "foldl ?step ?u before = ?u"
  proof (rule foldl_unchanged, clarify)
    fix p val assume b: "(p, val) \<in> set before"
    from other [OF b] have p: "bracketed_token p" "\<not> ci_equal p T" by auto
    have "\<forall>(t, s) \<in> set ts. bracketed_token t \<and> \<not> ci_equal p t \<and> CHR ''['' \<notin> set s"
      using ts p(2) ci_equal_bracketed [OF T] by (auto simp add: ci_equal_def)
    from pass_of_other_macro [OF p(1) this s0]
    show "js_replace_gi p val ?u = ?u" by (simp add: js_replace_gi_def)
  qed
  have the: "js_replace_gi T v ?u = ?u'"
    unfolding js_replace_gi_def using T v(1) ts s0 by (rule pass_of_the_macro)
  have no_open: "CHR ''['' \<notin> set ?u'"
    using v(2) s0 ts by (auto simp add: interleave_def)
  have after: "foldl ?step ?u' after = ?u'"
  proof (rule foldl_unchanged, clarify)
    fix p val assume a: "(p, val) \<in> set after"
    then have "p \<in> set macro_names"
      using names split by (metis UnCI fst_conv image_eqI list.set_intros(2) set_append set_map)
    from br [OF this] obtain w where "p = CHR ''['' # w @ [CHR '']'']" by (rule bracketed_tokenD)
    with no_open show "js_replace_gi p val ?u' = ?u'"
      by (simp add: js_replace_gi_def js_replace_from_no_open)
  qed
  have "foldl ?step ?u (macros env context) = ?u'"
    by (simp add: split before the after)
  moreover have "?u = [] \<Longrightarrow> ?u' = []"
  proof -
    assume e: "?u = []"
    from T obtain w where "T = CHR ''['' # w @ [CHR '']'']" by (rule bracketed_tokenD)
    then have "\<forall>(t, s) \<in> set ts. t \<noteq> []" using ts ci_equal_length by fastforce
    with e have "ts = []" by (cases ts) (auto simp add: interleave_def)
    with e show "?u' = []" by (simp add: interleave_def)
  qed
  ultimately show ?thesis by (auto simp add: replaceMacros_def)
qed

text \<open>The number drawn for the cache-buster is such a value.\<close>

lemma cachebuster_everywhere:
  assumes "CHR ''['' \<notin> set s0"
    and "\<forall>(t, s) \<in> set ts. ci_equal ''[CACHEBUSTER]'' t \<and> CHR ''['' \<notin> set s"
  shows "replaceMacros env (interleave s0 ts) context
           = interleave s0 (map (\<lambda>(t, s). (string_of_nat (random_cachebuster env), s)) ts)"
proof -
  have "(''[CACHEBUSTER]'', string_of_nat (random_cachebuster env)) \<in> set (macros env context)"
    by (simp add: macros_def)
  from every_spelling_gets_the_value [OF this string_of_nat_plain assms] show ?thesis .
qed

section \<open>Lemmas: rounding to a double\<close>

lemma round_half_even_bounds: "\<lfloor>x\<rfloor> \<le> round_half_even x" "round_half_even x \<le> \<lceil>x\<rceil>"
  unfolding round_half_even_def Let_def by (auto simp add: ceiling_altdef)

lemma round_half_even_ge: "of_int k \<le> x \<Longrightarrow> k \<le> round_half_even x"
  using round_half_even_bounds(1) [of x] by (meson le_floor_iff order_trans)

lemma round_half_even_le: "x \<le> of_int k \<Longrightarrow> round_half_even x \<le> k"
  using round_half_even_bounds(2) [of x] by (meson ceiling_le_iff order_trans)

lemma round_half_even_of_int [simp]: "round_half_even (of_int k) = k"
  by (simp add: round_half_even_def)

lemma round_half_even_near:
  assumes "\<bar>x - of_int k\<bar> < 1 / 2"
  shows "round_half_even x = k"
proof (cases "of_int k \<le> x")
  case True
  with assms have "\<lfloor>x\<rfloor> = k" by linarith
  with assms True show ?thesis by (simp add: round_half_even_def Let_def)
next
  case False
  with assms have f: "\<lfloor>x\<rfloor> = k - 1" by linarith
  from assms False have "1 / 2 < x - of_int (k - 1)" by simp
  with f show ?thesis by (simp add: round_half_even_def Let_def)
qed

lemma binade_bounds:
  assumes "0 < x"
  shows "power_int 2 (binade x) \<le> x" "x < power_int 2 (binade x + 1)"
proof -
  have "power_int 2 (binade x) \<le> x \<and> x < power_int 2 (binade x + 1)"
  proof (cases "1 \<le> x")
    case True
    define n where "n = \<lfloor>x\<rfloor>"
    have n: "0 < n" using True by (simp add: n_def)
    from bitlen_bounds [OF n] have b: "2 ^ nat (bitlen n - 1) \<le> n" "n < 2 ^ nat (bitlen n)" by auto
    have b1: "1 \<le> bitlen n" using n by (simp add: bitlen_alt_def)
    have "(2::rat) ^ nat (bitlen n - 1) \<le> of_int n" using b(1)
      by (metis of_int_le_iff of_int_numeral of_int_power)
    also have "\<dots> \<le> x" unfolding n_def by linarith
    finally have l: "(2::rat) ^ nat (bitlen n - 1) \<le> x" .
    have "n + 1 \<le> 2 ^ nat (bitlen n)" using b(2) by simp
    then have "(of_int (n + 1) :: rat) \<le> 2 ^ nat (bitlen n)"
      by (metis of_int_le_iff of_int_numeral of_int_power)
    moreover have "x < of_int (n + 1)" unfolding n_def by linarith
    ultimately have u: "x < 2 ^ nat (bitlen n)" by simp
    have "binade x = bitlen n - 1" using True by (simp add: binade_def n_def)
    with l u b1 show ?thesis by (simp add: power_int_def)
  next
    case False
    define k where "k = \<lceil>1 / x\<rceil> - 1"
    from False assms have r: "1 < 1 / x" by simp
    then have k: "0 < k" unfolding k_def by linarith
    have kl: "of_int k < 1 / x" unfolding k_def by linarith
    have ku: "1 / x \<le> of_int (k + 1)" unfolding k_def by linarith
    from bitlen_bounds [OF k] have b: "2 ^ nat (bitlen k - 1) \<le> k" "k < 2 ^ nat (bitlen k)" by auto
    have b1: "1 \<le> bitlen k" using k by (simp add: bitlen_alt_def)
    have "(2::rat) ^ nat (bitlen k - 1) \<le> of_int k" using b(1)
      by (metis of_int_le_iff of_int_numeral of_int_power)
    then have l: "(2::rat) ^ nat (bitlen k - 1) < 1 / x" using kl by (rule le_less_trans)
    have "k + 1 \<le> 2 ^ nat (bitlen k)" using b(2) by simp
    then have "(of_int (k + 1) :: rat) \<le> 2 ^ nat (bitlen k)"
      by (metis of_int_le_iff of_int_numeral of_int_power)
    with ku have u: "1 / x \<le> 2 ^ nat (bitlen k)" by (rule order_trans)
    have be: "binade x = - bitlen k" using False by (simp add: binade_def k_def)
    have p1: "power_int (2::rat) (- bitlen k) = 1 / 2 ^ nat (bitlen k)"
      using b1 by (simp add: power_int_def field_simps)
    have p2: "power_int (2::rat) (- bitlen k + 1) = 1 / 2 ^ nat (bitlen k - 1)"
      using b1 by (simp add: power_int_def field_simps nat_diff_distrib)
    have "1 / 2 ^ nat (bitlen k) \<le> x" using u assms
      by (simp add: field_simps)
    moreover have "x < 1 / 2 ^ nat (bitlen k - 1)" using l assms
      by (simp add: field_simps)
    ultimately show ?thesis unfolding be p1 p2 by simp
  qed
  then show "power_int 2 (binade x) \<le> x" "x < power_int 2 (binade x + 1)" by auto
qed

lemma power_int_two_less: "power_int (2::rat) m < power_int 2 n \<Longrightarrow> m < n"
  by (metis linorder_not_less one_le_numeral power_int_increasing)

lemma binade_unique:
  assumes "power_int 2 e \<le> x" "x < power_int 2 (e + 1)"
  shows "binade x = e"
proof -
  have "0 < power_int (2::rat) e" by (simp add: zero_less_power_int)
  then have x0: "0 < x" using assms(1) by (rule less_le_trans)
  have "power_int 2 e < power_int (2::rat) (binade x + 1)"
    using assms(1) binade_bounds(2) [OF x0] by (rule le_less_trans)
  then have 1: "e < binade x + 1" by (rule power_int_two_less)
  have "power_int 2 (binade x) < power_int (2::rat) (e + 1)"
    using binade_bounds(1) [OF x0] assms(2) by (rule le_less_trans)
  then have 2: "binade x < e + 1" by (rule power_int_two_less)
  from 1 2 show ?thesis by simp
qed

lemma binade_mono:
  assumes "0 < x" "x \<le> y"
  shows "binade x \<le> binade y"
proof -
  have "power_int 2 (binade x) \<le> x" using assms(1) by (rule binade_bounds)
  also note assms(2)
  also have "y < power_int 2 (binade y + 1)" using assms by (intro binade_bounds) simp
  finally have "binade x < binade y + 1" by (rule power_int_two_less)
  then show ?thesis by simp
qed

lemma exponent_mono: "0 < x \<Longrightarrow> x \<le> y \<Longrightarrow> exponent x \<le> exponent y"
  using binade_mono [of x y] by (simp add: exponent_def max_def)

lemma ulp_pos: "0 < ulp x"
  by (simp add: ulp_def zero_less_power_int)

lemma exponent_ulp: "power_int 2 (exponent x) = 2 ^ 52 * ulp x"
proof -
  have "power_int (2::rat) (exponent x) = power_int 2 (52 + (exponent x - 52))" by simp
  also have "\<dots> = power_int 2 52 * power_int 2 (exponent x - 52)"
    by (rule power_int_add) simp
  finally show ?thesis by (simp add: ulp_def)
qed

lemma exponent_ulp': "power_int 2 (exponent x + 1) = 2 ^ 53 * ulp x"
proof -
  have "exponent x + 1 = 53 + (exponent x - 52)" by simp
  then have "power_int (2::rat) (exponent x + 1) = power_int 2 (53 + (exponent x - 52))"
    by (rule arg_cong)
  also have "\<dots> = power_int 2 53 * power_int 2 (exponent x - 52)"
    by (rule power_int_add) simp
  finally show ?thesis by (simp add: ulp_def)
qed

lemma nearest_ge:
  assumes "0 < x" "of_int k * ulp x \<le> x"
  shows "of_int k * ulp x \<le> nearest x"
proof -
  from assms ulp_pos [of x] have "of_int k \<le> \<bar>x\<bar> / ulp x" by (simp add: field_simps)
  then have "k \<le> round_half_even (\<bar>x\<bar> / ulp x)" by (rule round_half_even_ge)
  then show ?thesis using ulp_pos [of x] by (simp add: nearest_def)
qed

lemma nearest_le:
  assumes "0 < x" "x \<le> of_int k * ulp x"
  shows "nearest x \<le> of_int k * ulp x"
proof -
  from assms ulp_pos [of x] have "\<bar>x\<bar> / ulp x \<le> of_int k" by (simp add: field_simps)
  then have "round_half_even (\<bar>x\<bar> / ulp x) \<le> k" by (rule round_half_even_le)
  then show ?thesis using ulp_pos [of x] by (simp add: nearest_def)
qed

lemma nearest_upper:
  assumes "0 < x"
  shows "nearest x \<le> power_int 2 (exponent x + 1)"
proof -
  have "x < power_int 2 (binade x + 1)" using assms by (rule binade_bounds)
  also have "\<dots> \<le> power_int 2 (exponent x + 1)"
    using assms by (intro power_int_increasing) (simp_all add: exponent_def)
  finally have "x \<le> of_int (2 ^ 53) * ulp x" by (simp add: exponent_ulp')
  from nearest_le [OF assms this] show ?thesis by (simp add: exponent_ulp')
qed

lemma nearest_lower:
  assumes "0 < x" "- 1022 \<le> binade x"
  shows "power_int 2 (exponent x) \<le> nearest x"
proof -
  have e: "exponent x = binade x" using assms by (simp add: exponent_def)
  have "power_int 2 (binade x) \<le> x" using assms(1) by (rule binade_bounds)
  then have "of_int (2 ^ 52) * ulp x \<le> x" by (simp add: e [symmetric] exponent_ulp)
  from nearest_ge [OF assms(1) this] show ?thesis by (simp add: exponent_ulp)
qed

lemma nearest_nonneg: "0 \<le> nearest x"
proof -
  have "0 \<le> \<bar>x\<bar> / ulp x" using ulp_pos [of x] by simp
  then have "0 \<le> round_half_even (\<bar>x\<bar> / ulp x)"
    using round_half_even_ge [of 0] by simp
  then show ?thesis using ulp_pos [of x] by (simp add: nearest_def)
qed

lemma double_nearest:
  assumes "0 < r" "round_double r = Finite r"
  shows "nearest r = r" "nearest r < 2 ^ 1024"
  using assms by (auto simp add: round_double_def split: if_splits)

lemma double_multiple:
  assumes "0 < r" "round_double r = Finite r"
  shows "r = of_int (round_half_even (r / ulp r)) * ulp r"
  using double_nearest(1) [OF assms] assms(1) by (simp add: nearest_def)

text \<open>
  Rounding does not pass a double: what is at least the double \<open>r\<close> is rounded to at
  least \<open>r\<close>, and what is at most \<open>r\<close> to at most \<open>r\<close>.
\<close>

lemma round_double_ge:
  assumes r: "0 < r" "round_double r = Finite r" and x: "r \<le> x"
  shows "js_ge (round_double x) r"
proof -
  have x0: "0 < x" using r(1) x by simp
  have "r \<le> nearest x"
  proof (cases "exponent x = exponent r")
    case True
    then have u: "ulp x = ulp r" by (simp add: ulp_def)
    from double_multiple [OF r] obtain k where k: "r = of_int k * ulp r" by blast
    from nearest_ge [OF x0, of k] k x u show ?thesis by simp
  next
    case False
    with exponent_mono [OF r(1) x] have l: "exponent r < exponent x" by simp
    then have b: "- 1022 \<le> binade x"
      using x0 by (auto simp add: exponent_def max_def split: if_splits)
    have "r = nearest r" using double_nearest(1) [OF r] by simp
    also have "\<dots> \<le> power_int 2 (exponent r + 1)" using r(1) by (rule nearest_upper)
    also have "\<dots> \<le> power_int 2 (exponent x)"
      using l by (intro power_int_increasing) simp_all
    also have "\<dots> \<le> nearest x" using x0 b by (rule nearest_lower)
    finally show ?thesis .
  qed
  then show ?thesis using x0 by (simp add: round_double_def)
qed

lemma round_double_le:
  assumes r: "0 < r" "round_double r = Finite r" and x: "0 \<le> x" "x \<le> r"
  shows "\<exists>y. round_double x = Finite y \<and> 0 \<le> y \<and> y \<le> r"
proof (cases "x = 0")
  case True
  then show ?thesis using r(1) by (simp add: round_double_def)
next
  case False
  then have x0: "0 < x" using x(1) by simp
  have "nearest x \<le> r"
  proof (cases "exponent x = exponent r")
    case True
    then have u: "ulp x = ulp r" by (simp add: ulp_def)
    from double_multiple [OF r] obtain k where k: "r = of_int k * ulp r" by blast
    from nearest_le [OF x0, of k] k x u show ?thesis by simp
  next
    case False
    with exponent_mono [OF x0 x(2)] have l: "exponent x < exponent r" by simp
    then have b: "- 1022 \<le> binade r"
      using r(1) by (auto simp add: exponent_def max_def split: if_splits)
    have "nearest x \<le> power_int 2 (exponent x + 1)" using x0 by (rule nearest_upper)
    also have "\<dots> \<le> power_int 2 (exponent r)"
      using l by (intro power_int_increasing) simp_all
    also have "\<dots> \<le> nearest r" using r(1) b by (rule nearest_lower)
    also have "\<dots> = r" using double_nearest(1) [OF r] by simp
    finally show ?thesis .
  qed
  moreover have "nearest r < 2 ^ 1024" using r by (rule double_nearest)
  moreover have "nearest r = r" using r by (rule double_nearest)
  ultimately show ?thesis using x0 nearest_nonneg [of x] by (simp add: round_double_def)
qed

text \<open>
  The value of a rounding: in the binade of exponent \<open>e\<close>, the multiple of the spacing
  that is less than half a spacing away.
\<close>

lemma round_double_near:
  assumes e: "- 1022 \<le> e" "e \<le> 1022"
    and x: "power_int 2 e \<le> x" "x < power_int 2 (e + 1)"
    and k: "\<bar>x / power_int 2 (e - 52) - of_int k\<bar> < 1 / 2"
  shows "round_double x = Finite (of_int k * power_int 2 (e - 52))"
proof -
  have "0 < power_int (2::rat) e" by (simp add: zero_less_power_int)
  then have x0: "0 < x" using x(1) by (rule less_le_trans)
  have b: "binade x = e" using x by (rule binade_unique)
  have ex: "exponent x = e" using e(1) x0 by (simp add: exponent_def b)
  have up: "ulp x = power_int 2 (e - 52)" by (simp add: ulp_def ex)
  have "round_half_even (\<bar>x\<bar> / ulp x) = k"
    using k x0 unfolding up by (intro round_half_even_near) simp
  then have n: "nearest x = of_int k * power_int 2 (e - 52)" by (simp add: nearest_def up)
  have "nearest x \<le> power_int 2 (e + 1)" using nearest_upper [OF x0] by (simp add: ex)
  also have "\<dots> \<le> power_int 2 1023" using e(2) by (intro power_int_increasing) simp_all
  also have "\<dots> < (2::rat) ^ 1024" by simp
  finally have "nearest x < 2 ^ 1024" .
  then show ?thesis using x0 by (simp add: round_double_def n)
qed

text \<open>A number of 53 significant bits and an exponent in range is a double.\<close>

lemma round_double_exact:
  assumes k: "2 ^ 52 \<le> k" "k < 2 ^ 53" and j: "- 1074 \<le> j" "j \<le> 971"
    and x: "x = of_int k * power_int 2 j"
  shows "round_double x = Finite x"
proof -
  have p: "0 < power_int (2::rat) j" by (simp add: zero_less_power_int)
  have k0: "(0::rat) < of_int k" using k(1) by simp
  have x0: "0 < x" unfolding x using k0 p by simp
  have "(2::rat) ^ 52 \<le> of_int k"
    using k(1) by (metis of_int_le_iff of_int_numeral of_int_power)
  then have "2 ^ 52 * power_int 2 j \<le> x" unfolding x using p by simp
  moreover have "power_int (2::rat) (j + 52) = power_int 2 j * power_int 2 52"
    by (rule power_int_add) simp
  ultimately have l: "power_int 2 (j + 52) \<le> x" by (simp add: mult.commute)
  have "of_int k < (2::rat) ^ 53"
    using k(2) by (metis of_int_less_iff of_int_numeral of_int_power)
  then have "x < 2 ^ 53 * power_int 2 j" unfolding x using p by simp
  moreover have "power_int (2::rat) (j + 52 + 1) = power_int 2 j * power_int 2 53"
  proof -
    have "j + 52 + 1 = j + 53" by simp
    then have "power_int (2::rat) (j + 52 + 1) = power_int 2 (j + 53)" by (rule arg_cong)
    also have "\<dots> = power_int 2 j * power_int 2 53" by (rule power_int_add) simp
    finally show ?thesis .
  qed
  ultimately have u: "x < power_int 2 (j + 52 + 1)" by (simp add: mult.commute)
  have b: "binade x = j + 52" using l u by (rule binade_unique)
  have e: "exponent x = j + 52" using x0 j(1) by (simp add: exponent_def b)
  have up: "ulp x = power_int 2 j" by (simp add: ulp_def e)
  have "\<bar>x\<bar> / ulp x = of_int k" using x0 p unfolding up by (simp add: x)
  then have n: "nearest x = x" unfolding nearest_def up by (simp add: x)
  have "power_int (2::rat) (j + 52 + 1) \<le> power_int 2 1024"
    using j(2) by (intro power_int_increasing) simp_all
  with u have "x < 2 ^ 1024" by simp
  then show ?thesis using x0 by (simp add: round_double_def n)
qed

lemma double_eighth: "round_double (1 / 8) = Finite (1 / 8)"
  by (rule round_double_exact [of "2 ^ 52" "- 55"]) simp_all

lemma double_quarter: "round_double (1 / 4) = Finite (1 / 4)"
  by (rule round_double_exact [of "2 ^ 52" "- 54"]) simp_all

lemma double_half: "round_double (1 / 2) = Finite (1 / 2)"
  by (rule round_double_exact [of "2 ^ 52" "- 53"]) simp_all

lemma double_three_quarters: "round_double (3 / 4) = Finite (3 / 4)"
  by (rule round_double_exact [of "3 * 2 ^ 51" "- 53"]) simp_all

subsection \<open>The progress and the thresholds\<close>

lemma js_divide_zero: "d \<noteq> 0 \<Longrightarrow> js_divide 0 (Finite d) = Finite 0"
  by (simp add: js_divide_def round_double_def)

lemma js_divide_reached:
  assumes "0 < d" and "0 < t" and "round_double t = Finite t" and "t * d \<le> x"
  shows "js_ge (js_divide x (Finite d)) t"
proof -
  have "t \<le> x / d" using assms(1,4) by (simp add: field_simps)
  from round_double_ge [OF assms(2,3) this] show ?thesis
    using assms(1) by (simp add: js_divide_def)
qed

lemma js_divide_below:
  assumes "0 < d" and "0 < r" and "round_double r = Finite r" and "0 \<le> x" and "x \<le> r * d"
    and "r < t"
  shows "\<not> js_ge (js_divide x (Finite d)) t"
proof -
  have "0 \<le> x / d" "x / d \<le> r" using assms(1,4,5) by (simp_all add: field_simps)
  from round_double_le [OF assms(2,3) this] assms(6) show ?thesis
    using assms(1) by (auto simp add: js_divide_def)
qed

text \<open>
  A position at or beyond a quarter, a half or three quarters of the duration has
  reached the threshold; one at or before an eighth has reached none.
\<close>

lemma threshold_reached:
  assumes "0 < d" and "threshold q * d \<le> x"
  shows "js_ge (js_divide x (Finite d)) (threshold q)"
proof (cases q)
  case FirstQuartile
  have "js_ge (js_divide x (Finite d)) (1 / 4)"
    using assms FirstQuartile by (intro js_divide_reached double_quarter) simp_all
  with FirstQuartile show ?thesis by simp
next
  case Midpoint
  have "js_ge (js_divide x (Finite d)) (1 / 2)"
    using assms Midpoint by (intro js_divide_reached double_half) simp_all
  with Midpoint show ?thesis by simp
next
  case ThirdQuartile
  have "js_ge (js_divide x (Finite d)) (3 / 4)"
    using assms ThirdQuartile by (intro js_divide_reached double_three_quarters) simp_all
  with ThirdQuartile show ?thesis by simp
qed

lemma threshold_not_reached:
  assumes "0 < d" and "0 \<le> x" and "8 * x \<le> d"
  shows "\<not> js_ge (js_divide x (Finite d)) (threshold q)"
proof -
  have "1 / 8 < threshold q" by (cases q) simp_all
  moreover have "x \<le> 1 / 8 * d" using assms(3) by simp
  ultimately show ?thesis
    using assms(1,2) by (intro js_divide_below [where r = "1 / 8"] double_eighth) simp_all
qed

lemma lowest_none_reached:
  assumes "0 < d" and "0 \<le> x" and "8 * x \<le> d"
  shows "lowest_reached_unfired f (js_divide x (Finite d)) = None"
proof -
  have "\<not> reached_unfired f (js_divide x (Finite d)) q" for q
    using threshold_not_reached [OF assms, of q] by (simp add: reached_unfired_def)
  then show ?thesis by (simp add: lowest_reached_unfired_def)
qed

lemma lowest_all_fired:
  assumes "firstQuartile f" and "midpoint f" and "thirdQuartile f"
  shows "lowest_reached_unfired f progress = None"
  using assms by (simp add: lowest_reached_unfired_def reached_unfired_def)

lemma lowest_first:
  assumes "0 < d" and "d \<le> 4 * x" and "\<not> firstQuartile f"
  shows "lowest_reached_unfired f (js_divide x (Finite d)) = Some FirstQuartile"
proof -
  have "js_ge (js_divide x (Finite d)) (threshold FirstQuartile)"
    using assms(1,2) by (intro threshold_reached) simp_all
  with assms(3) show ?thesis by (simp add: lowest_reached_unfired_def reached_unfired_def)
qed

lemma lowest_midpoint:
  assumes "0 < d" and "d \<le> 2 * x" and "firstQuartile f" and "\<not> midpoint f"
  shows "lowest_reached_unfired f (js_divide x (Finite d)) = Some Midpoint"
proof -
  have "js_ge (js_divide x (Finite d)) (threshold Midpoint)"
    using assms(1,2) by (intro threshold_reached) simp_all
  with assms(3,4) show ?thesis by (simp add: lowest_reached_unfired_def reached_unfired_def)
qed

lemma lowest_third:
  assumes "0 < d" and "3 * d \<le> 4 * x" and "firstQuartile f" and "midpoint f"
    and "\<not> thirdQuartile f"
  shows "lowest_reached_unfired f (js_divide x (Finite d)) = Some ThirdQuartile"
proof -
  have "js_ge (js_divide x (Finite d)) (threshold ThirdQuartile)"
    using assms(1,2) by (intro threshold_reached) simp_all
  with assms(3,4,5) show ?thesis by (simp add: lowest_reached_unfired_def reached_unfired_def)
qed

lemma highest_third:
  assumes "0 < d" and "3 * d \<le> 4 * x" and "\<not> thirdQuartile f"
  shows "highest_reached_unfired f (js_divide x (Finite d)) = Some ThirdQuartile"
proof -
  have "js_ge (js_divide x (Finite d)) (threshold ThirdQuartile)"
    using assms(1,2) by (intro threshold_reached) simp_all
  with assms(3) show ?thesis by (simp add: highest_reached_unfired_def reached_unfired_def)
qed

section \<open>Lemmas: the batch helpers and loading\<close>

lemma fire_batch:
  "fold (\<lambda>(i, x) t'. snd (fireTracker (envs i) (g x) ty (h x) context t')) (enumerate n xs) t
     = t\<lparr>image_requests := image_requests t @
            map (\<lambda>(i, x). replaceMacros (envs i) (g x) context)
              (filter (\<lambda>(i, x). g x \<noteq> [] \<and> g x \<notin> firedTrackers t) (enumerate n xs)),
          awaiting := awaiting t @
            map (\<lambda>(i, x). \<lparr>sf_url = g x, sf_type = ty, sf_event = h x,
                            sf_timestamp = isoString (envs i),
                            sf_processedURL = replaceMacros (envs i) (g x) context\<rparr>)
              (filter (\<lambda>(i, x). g x \<noteq> [] \<and> g x \<notin> firedTrackers t) (enumerate n xs))\<rparr>"
proof (induction xs arbitrary: n t)
  case Nil
  then show ?case by simp
next
  case (Cons x xs)
  let ?t1 = "snd (fireTracker (envs n) (g x) ty (h x) context t)"
  have f1: "firedTrackers ?t1 = firedTrackers t"
    by (simp add: fireTracker_def sendTracking_def Let_def)
  have "fold (\<lambda>(i, x) t'. snd (fireTracker (envs i) (g x) ty (h x) context t'))
          (enumerate n (x # xs)) t
        = fold (\<lambda>(i, x) t'. snd (fireTracker (envs i) (g x) ty (h x) context t'))
          (enumerate (Suc n) xs) ?t1"
    by simp
  also note Cons.IH [of "Suc n" ?t1]
  finally show ?case
    unfolding f1 by (simp add: fireTracker_def sendTracking_def Let_def)
qed

lemma fireEventTrackers_fired [simp]:
  "firedTrackers (fireEventTrackers envs e trs context t) = firedTrackers t"
  "trackingLog (fireEventTrackers envs e trs context t) = trackingLog t"
  by (simp_all add: fireEventTrackers_def fire_batch)

lemma fireImpressions_fired [simp]:
  "firedTrackers (fireImpressions envs imps context t) = firedTrackers t"
  "trackingLog (fireImpressions envs imps context t) = trackingLog t"
  by (simp_all add: fireImpressions_def fire_batch)

lemma enumerate_map: "enumerate n (map f xs) = map (\<lambda>(i, x). (i, f x)) (enumerate n xs)"
  by (induction xs arbitrary: n) auto

lemma new_requests_fireImpressions:
  "new_requests t (fireImpressions envs imps context t)
     = to_request envs context (firedTrackers t) (map impression_url imps)"
  unfolding new_requests_def fireImpressions_def fire_batch to_request_def
  by (simp add: enumerate_map filter_map comp_def case_prod_unfold)

lemma new_requests_fireEventTrackers:
  "new_requests t (fireEventTrackers envs e trs context t)
     = to_request envs context (firedTrackers t) (map trk_url (filter (\<lambda>tr. trk_event tr = e) trs))"
  unfolding new_requests_def fireEventTrackers_def fire_batch to_request_def
  by (simp add: enumerate_map filter_map comp_def case_prod_unfold)

lemma loadAd_loaded:
  assumes "loadAd envs vd turls p0 = (True, p)"
  shows "listeners p = event_names" and "trackingURLs p = Some turls"
    and "quartilesFired p = no_quartiles" and "vastData p = Some vd"
    and "tracker p = fireImpressions envs (impressions turls) empty_context (tracker p0)"
    and "duration (video p) = duration (video p0)"
    and "ended (video p) = ended (video p0)"
  using assms
  by (auto simp add: loadAd_def Let_def logEvent_def setupEventListeners_def
      removeEventListeners_def
      split: option.splits ad_body.splits creative_data.splits)

lemma new_requests_same [simp]: "new_requests t t = []"
  by (simp add: new_requests_def)

lemma mem_event_names [simp]:
  "''play'' \<in> set event_names" "''pause'' \<in> set event_names"
  "''ended'' \<in> set event_names" "''timeupdate'' \<in> set event_names"
  by (simp_all add: event_names_def)

subsection \<open>Position updates\<close>

lemma onTimeUpdate_chain:
  assumes "\<not> falsy_number (duration (video p))" and "trackingURLs p = Some turls"
  shows "onTimeUpdate envs p
           = (case lowest_reached_unfired (quartilesFired p) (progress_of (video p)) of
                None \<Rightarrow> p
              | Some q \<Rightarrow> fire_quartile envs q turls p)"
proof -
  define pr where "pr = js_divide (currentTime (video p)) (duration (video p))"
  define f where "f = quartilesFired p"
  have c: "(js_ge pr 0.25 \<and> \<not> firstQuartile f) = reached_unfired f pr FirstQuartile"
    "(js_ge pr 0.5 \<and> \<not> midpoint f) = reached_unfired f pr Midpoint"
    "(js_ge pr 0.75 \<and> \<not> thirdQuartile f) = reached_unfired f pr ThirdQuartile"
    unfolding reached_unfired_def threshold.simps quartile_fired.simps by (rule refl)+
  have "onTimeUpdate envs p =
      (if js_ge pr 0.25 \<and> \<not> firstQuartile f then fire_quartile envs FirstQuartile turls p
       else if js_ge pr 0.5 \<and> \<not> midpoint f then fire_quartile envs Midpoint turls p
       else if js_ge pr 0.75 \<and> \<not> thirdQuartile f then fire_quartile envs ThirdQuartile turls p
       else p)"
    unfolding onTimeUpdate_def fire_quartile_def pr_def f_def Let_def
    by (simp only: assms option.case if_False quartile_name.simps quartile_message.simps
        mark_fired.simps)
  then have "onTimeUpdate envs p =
      (if reached_unfired f pr FirstQuartile then fire_quartile envs FirstQuartile turls p
       else if reached_unfired f pr Midpoint then fire_quartile envs Midpoint turls p
       else if reached_unfired f pr ThirdQuartile then fire_quartile envs ThirdQuartile turls p
       else p)"
    unfolding c .
  also have "\<dots> = (case lowest_reached_unfired f pr of
                None \<Rightarrow> p
              | Some q \<Rightarrow> fire_quartile envs q turls p)"
    unfolding lowest_reached_unfired_def find.simps
    by (cases "reached_unfired f pr FirstQuartile"; cases "reached_unfired f pr Midpoint";
        cases "reached_unfired f pr ThirdQuartile")
       (simp_all only: if_True if_False option.case)
  finally show ?thesis unfolding pr_def f_def progress_of_def .
qed

lemma dispatch_Timeupdate:
  assumes "listeners p = event_names" and "duration (video p) = Finite d" and "d \<noteq> 0"
    and "trackingURLs p = Some turls"
  shows "dispatch envs (Timeupdate t) p
           = (case lowest_reached_unfired (quartilesFired p) (js_divide t (Finite d)) of
                None \<Rightarrow> p\<lparr>video := (video p)\<lparr>currentTime := t\<rparr>\<rparr>
              | Some q \<Rightarrow> fire_quartile envs q turls (p\<lparr>video := (video p)\<lparr>currentTime := t\<rparr>\<rparr>))"
proof -
  let ?p = "p\<lparr>video := (video p)\<lparr>currentTime := t\<rparr>\<rparr>"
  have 1: "\<not> falsy_number (duration (video ?p))" using assms(2,3) by simp
  have 2: "trackingURLs ?p = Some turls" using assms(4) by simp
  have "dispatch envs (Timeupdate t) p = onTimeUpdate envs ?p"
    using assms(1) by (simp add: dispatch_def)
  also note onTimeUpdate_chain [OF 1 2, of envs]
  finally show ?thesis using assms(2) by (simp add: progress_of_def)
qed

text \<open>
  A player with an ad loaded, taken through six positions: the first two at most an
  eighth of the duration, the third at least a quarter, the fourth at least a half, the
  fifth at least three quarters of it, the sixth anywhere.
\<close>

lemma position_run:
  fixes t0 t1 t2 t3 t4 t5 :: rat
  assumes "listeners p = event_names" and "trackingURLs p = Some turls"
    and "quartilesFired p = no_quartiles" and "duration (video p) = Finite d" and "0 < d"
    and t0: "0 \<le> t0" "8 * t0 \<le> d" and t1: "0 \<le> t1" "8 * t1 \<le> d"
    and t2: "d \<le> 4 * t2" and t3: "d \<le> 2 * t3" and t4: "3 * d \<le> 4 * t4"
  defines "es \<equiv> [Play, Timeupdate t0, Timeupdate t1, Timeupdate t2, Timeupdate t3,
                     Timeupdate t4, Timeupdate t5, Ended]"
  shows "tracker (play_through envs es p)
           = fireEventTrackers envs ''complete'' (tracking turls) empty_context
              (fireEventTrackers envs ''thirdQuartile'' (tracking turls) empty_context
                (fireEventTrackers envs ''midpoint'' (tracking turls) empty_context
                  (fireEventTrackers envs ''firstQuartile'' (tracking turls) empty_context
                    (fireEventTrackers envs ''start'' (tracking turls) empty_context
                       (tracker p)))))"
    and "quartilesFired (play_through envs es p)
           = \<lparr>start = True, firstQuartile = True, midpoint = True, thirdQuartile = True,
              complete = True\<rparr>"
    and "tracking_messages (play_through envs es p)
           = tracking_messages p @
             [''Fired start tracking'', ''Fired first quartile tracking (25%)'',
              ''Fired midpoint tracking (50%)'', ''Fired third quartile tracking (75%)'',
              ''Fired complete tracking'']"
proof -
  define p1 where "p1 = dispatch envs Play p"
  define p2 where "p2 = dispatch envs (Timeupdate t0) p1"
  define p3 where "p3 = dispatch envs (Timeupdate t1) p2"
  define p4 where "p4 = dispatch envs (Timeupdate t2) p3"
  define p5 where "p5 = dispatch envs (Timeupdate t3) p4"
  define p6 where "p6 = dispatch envs (Timeupdate t4) p5"
  define p7 where "p7 = dispatch envs (Timeupdate t5) p6"
  define p8 where "p8 = dispatch envs Ended p7"
  have run: "play_through envs es p = p8"
    by (simp add: play_through_def es_def p1_def p2_def p3_def p4_def p5_def p6_def p7_def
        p8_def)
  have d0: "d \<noteq> 0" using assms(5) by simp
  have s1: "listeners p1 = event_names" "duration (video p1) = Finite d"
    "trackingURLs p1 = Some turls" "quartilesFired p1 = no_quartiles\<lparr>start := True\<rparr>"
    "tracker p1 = fireEventTrackers envs ''start'' (tracking turls) empty_context (tracker p)"
    "tracking_messages p1 = tracking_messages p @ [''Fired start tracking'']"
    using assms(1,2,3,4)
    by (simp_all add: p1_def dispatch_def onPlay_def logEvent_def Let_def no_quartiles_def
        tracking_messages_def)
  have "p2 = p1\<lparr>video := (video p1)\<lparr>currentTime := t0\<rparr>\<rparr>"
    unfolding p2_def dispatch_Timeupdate [OF s1(1,2) d0 s1(3)]
    by (simp add: lowest_none_reached [OF assms(5) t0])
  then have s2: "listeners p2 = event_names" "duration (video p2) = Finite d"
    "trackingURLs p2 = Some turls" "quartilesFired p2 = no_quartiles\<lparr>start := True\<rparr>"
    "tracker p2 = tracker p1" "tracking_messages p2 = tracking_messages p1"
    using s1 by (simp_all add: tracking_messages_def)
  have "p3 = p2\<lparr>video := (video p2)\<lparr>currentTime := t1\<rparr>\<rparr>"
    unfolding p3_def dispatch_Timeupdate [OF s2(1,2) d0 s2(3)]
    by (simp add: lowest_none_reached [OF assms(5) t1])
  then have s3: "listeners p3 = event_names" "duration (video p3) = Finite d"
    "trackingURLs p3 = Some turls" "quartilesFired p3 = no_quartiles\<lparr>start := True\<rparr>"
    "tracker p3 = tracker p1" "tracking_messages p3 = tracking_messages p1"
    using s2 by (simp_all add: tracking_messages_def)
  have "p4 = fire_quartile envs FirstQuartile turls
               (p3\<lparr>video := (video p3)\<lparr>currentTime := t2\<rparr>\<rparr>)"
    unfolding p4_def dispatch_Timeupdate [OF s3(1,2) d0 s3(3)]
    using assms(5) t2 by (simp add: lowest_first s3(4) no_quartiles_def)
  then have s4: "listeners p4 = event_names" "duration (video p4) = Finite d"
    "trackingURLs p4 = Some turls"
    "quartilesFired p4 = no_quartiles\<lparr>start := True, firstQuartile := True\<rparr>"
    "tracker p4 = fireEventTrackers envs ''firstQuartile'' (tracking turls) empty_context
                    (tracker p1)"
    "tracking_messages p4
       = tracking_messages p1 @ [''Fired first quartile tracking (25%)'']"
    using s3 by (simp_all add: fire_quartile_def logEvent_def tracking_messages_def)
  have "p5 = fire_quartile envs Midpoint turls
               (p4\<lparr>video := (video p4)\<lparr>currentTime := t3\<rparr>\<rparr>)"
    unfolding p5_def dispatch_Timeupdate [OF s4(1,2) d0 s4(3)]
    using assms(5) t3 by (simp add: lowest_midpoint s4(4) no_quartiles_def)
  then have s5: "listeners p5 = event_names" "duration (video p5) = Finite d"
    "trackingURLs p5 = Some turls"
    "quartilesFired p5
       = no_quartiles\<lparr>start := True, firstQuartile := True, midpoint := True\<rparr>"
    "tracker p5 = fireEventTrackers envs ''midpoint'' (tracking turls) empty_context
                    (tracker p4)"
    "tracking_messages p5 = tracking_messages p4 @ [''Fired midpoint tracking (50%)'']"
    using s4 by (simp_all add: fire_quartile_def logEvent_def tracking_messages_def)
  have "p6 = fire_quartile envs ThirdQuartile turls
               (p5\<lparr>video := (video p5)\<lparr>currentTime := t4\<rparr>\<rparr>)"
    unfolding p6_def dispatch_Timeupdate [OF s5(1,2) d0 s5(3)]
    using assms(5) t4 by (simp add: lowest_third s5(4) no_quartiles_def)
  then have s6: "listeners p6 = event_names" "duration (video p6) = Finite d"
    "trackingURLs p6 = Some turls"
    "quartilesFired p6
       = no_quartiles\<lparr>start := True, firstQuartile := True, midpoint := True,
           thirdQuartile := True\<rparr>"
    "tracker p6 = fireEventTrackers envs ''thirdQuartile'' (tracking turls) empty_context
                    (tracker p5)"
    "tracking_messages p6 = tracking_messages p5 @ [''Fired third quartile tracking (75%)'']"
    using s5 by (simp_all add: fire_quartile_def logEvent_def tracking_messages_def)
  have "p7 = p6\<lparr>video := (video p6)\<lparr>currentTime := t5\<rparr>\<rparr>"
    unfolding p7_def dispatch_Timeupdate [OF s6(1,2) d0 s6(3)]
    by (simp add: lowest_all_fired s6(4) no_quartiles_def)
  then have s7: "listeners p7 = event_names" "trackingURLs p7 = Some turls"
    "quartilesFired p7 = quartilesFired p6" "tracker p7 = tracker p6"
    "tracking_messages p7 = tracking_messages p6"
    using s6 by (simp_all add: tracking_messages_def)
  have s8: "quartilesFired p8
       = \<lparr>start = True, firstQuartile = True, midpoint = True, thirdQuartile = True,
          complete = True\<rparr>"
    "tracker p8 = fireEventTrackers envs ''complete'' (tracking turls) empty_context
                    (tracker p7)"
    "tracking_messages p8 = tracking_messages p7 @ [''Fired complete tracking'']"
    using s7 s6(4)
    by (simp_all add: p8_def dispatch_def onEnded_def logEvent_def Let_def no_quartiles_def
        tracking_messages_def)
  show "tracker (play_through envs es p)
           = fireEventTrackers envs ''complete'' (tracking turls) empty_context
              (fireEventTrackers envs ''thirdQuartile'' (tracking turls) empty_context
                (fireEventTrackers envs ''midpoint'' (tracking turls) empty_context
                  (fireEventTrackers envs ''firstQuartile'' (tracking turls) empty_context
                    (fireEventTrackers envs ''start'' (tracking turls) empty_context
                       (tracker p)))))"
    unfolding run s8 s7 s6 s5 s4 s1 by (rule refl)
  show "quartilesFired (play_through envs es p)
           = \<lparr>start = True, firstQuartile = True, midpoint = True, thirdQuartile = True,
              complete = True\<rparr>"
    unfolding run by (rule s8)
  show "tracking_messages (play_through envs es p)
           = tracking_messages p @
             [''Fired start tracking'', ''Fired first quartile tracking (25%)'',
              ''Fired midpoint tracking (50%)'', ''Fired third quartile tracking (75%)'',
              ''Fired complete tracking'']"
    unfolding run s8 s7 s6 s5 s4 s1 by simp
qed

text \<open>The position stream is such a sequence.\<close>

lemma position_stream_run:
  assumes "listeners p = event_names" and "trackingURLs p = Some turls"
    and "quartilesFired p = no_quartiles" and "duration (video p) = Finite d" and "0 < d"
  shows "tracker (play_through envs (position_stream d) p)
           = fireEventTrackers envs ''complete'' (tracking turls) empty_context
              (fireEventTrackers envs ''thirdQuartile'' (tracking turls) empty_context
                (fireEventTrackers envs ''midpoint'' (tracking turls) empty_context
                  (fireEventTrackers envs ''firstQuartile'' (tracking turls) empty_context
                    (fireEventTrackers envs ''start'' (tracking turls) empty_context
                       (tracker p)))))"
    and "quartilesFired (play_through envs (position_stream d) p)
           = \<lparr>start = True, firstQuartile = True, midpoint = True, thirdQuartile = True,
              complete = True\<rparr>"
    and "tracking_messages (play_through envs (position_stream d) p)
           = tracking_messages p @
             [''Fired start tracking'', ''Fired first quartile tracking (25%)'',
              ''Fired midpoint tracking (50%)'', ''Fired third quartile tracking (75%)'',
              ''Fired complete tracking'']"
proof -
  have b: "(0::rat) \<le> 0" "8 * 0 \<le> d" "0 \<le> d * 10 / 100" "8 * (d * 10 / 100) \<le> d"
    "d \<le> 4 * (d * 26 / 100)" "d \<le> 2 * (d * 51 / 100)" "3 * d \<le> 4 * (d * 76 / 100)"
    using assms(5) by simp_all
  note r = position_run [OF assms b, of envs d, folded position_stream_def]
  show "tracker (play_through envs (position_stream d) p)
           = fireEventTrackers envs ''complete'' (tracking turls) empty_context
              (fireEventTrackers envs ''thirdQuartile'' (tracking turls) empty_context
                (fireEventTrackers envs ''midpoint'' (tracking turls) empty_context
                  (fireEventTrackers envs ''firstQuartile'' (tracking turls) empty_context
                    (fireEventTrackers envs ''start'' (tracking turls) empty_context
                       (tracker p)))))"
    by (rule r(1))
  show "quartilesFired (play_through envs (position_stream d) p)
           = \<lparr>start = True, firstQuartile = True, midpoint = True, thirdQuartile = True,
              complete = True\<rparr>"
    by (rule r(2))
  show "tracking_messages (play_through envs (position_stream d) p)
           = tracking_messages p @
             [''Fired start tracking'', ''Fired first quartile tracking (25%)'',
              ''Fired midpoint tracking (50%)'', ''Fired third quartile tracking (75%)'',
              ''Fired complete tracking'']"
    by (rule r(3))
qed

lemma sample_load:
  "loadAd envs sample_vast turls sample_player
     = (True,
        sample_player
          \<lparr>video := sample_video\<lparr>src := ''https://c.example/v.mp4''\<rparr>,
           tracker := fireImpressions envs (impressions turls) empty_context new_tracker,
           vastData := Some sample_vast, trackingURLs := Some turls,
           eventLog := [\<lparr>ev_type = ''ad-loaded'', ev_message = ''Ad loaded: T'',
                         ev_currentTime = 0\<rparr>],
           listeners := event_names\<rparr>)"
  by (simp add: loadAd_def sample_vast_def ad_type_def creative_type_def selectMediaFile_def
      sample_mediaFile_def sample_mp4_element_def parseMediaFile_def attr_or_null_def
      attr_or_def sample_video_def
      sample_player_def new_videoPlayer_def Let_def logEvent_def setupEventListeners_def
      removeEventListeners_def no_quartiles_def)

lemma sample_loaded_eq:
  "loadAd sample_envs sample_vast sample_catalog sample_player = (True, sample_loaded)"
  unfolding sample_loaded_def sample_load by simp

lemma sample_loaded_facts:
  "listeners sample_loaded = event_names"
  "trackingURLs sample_loaded = Some sample_catalog"
  "quartilesFired sample_loaded = no_quartiles"
  "duration (video sample_loaded) = Finite 30"
  "ended (video sample_loaded) = False"
  "tracker sample_loaded
     = fireImpressions sample_envs (impressions sample_catalog) empty_context new_tracker"
  unfolding sample_loaded_def sample_load snd_conv
  by (simp_all add: sample_player_def new_videoPlayer_def sample_video_def no_quartiles_def)

lemma sample_started_facts:
  "listeners sample_started = event_names"
  "trackingURLs sample_started = Some sample_catalog"
  "quartilesFired sample_started = no_quartiles\<lparr>start := True\<rparr>"
  "duration (video sample_started) = Finite 30"
  "firedTrackers (tracker sample_started) = {}"
  by (simp_all add: sample_started_def play_through_def dispatch_def onPlay_def
      onTimeUpdate_def js_divide_zero logEvent_def Let_def sample_loaded_facts no_quartiles_def
      new_tracker_def)

lemma sample_completed_facts:
  "tracker sample_completed
     = fireEventTrackers sample_envs ''complete'' (tracking sample_catalog) empty_context
        (fireEventTrackers sample_envs ''thirdQuartile'' (tracking sample_catalog) empty_context
          (fireEventTrackers sample_envs ''midpoint'' (tracking sample_catalog) empty_context
            (fireEventTrackers sample_envs ''firstQuartile'' (tracking sample_catalog)
               empty_context
              (fireEventTrackers sample_envs ''start'' (tracking sample_catalog) empty_context
                 (tracker sample_loaded)))))"
  "quartilesFired sample_completed
     = \<lparr>start = True, firstQuartile = True, midpoint = True, thirdQuartile = True,
        complete = True\<rparr>"
  unfolding sample_completed_def
  by (rule position_stream_run [OF sample_loaded_facts(1,2,3,4)], simp)+

lemma sample_completed_complete: "complete (quartilesFired sample_completed)"
  by (simp add: sample_completed_facts)

section \<open>Properties of macro substitution\<close>

lemma errorcode_unknown:
  "bracketed_token ''[ERRORCODE]''" "\<forall>m \<in> set macro_names. \<not> ci_equal m ''[ERRORCODE]''"
  by (simp_all add: bracketed_token_def bracket_free_def macro_names_def ci_equal_def
      canonicalize_lower canonicalize_other)

text \<open>
  C5: a bracketed placeholder token that is not in the substitution table is left
  unchanged by macro substitution. For every URL that contains such a token, whatever
  stands before and behind it, the output contains the token at the place between what
  has become of the text before it and of the text behind it; a token at the start of
  the URL stays at the start, one at the end stays at the end, and a URL that is the
  token alone is returned as it is. The function is total: there is no error.
\<close>

theorem unknown_token_left_unchanged:
  assumes "bracketed_token t" and "\<forall>m \<in> set macro_names. \<not> ci_equal m t"
  shows "\<exists>a' b'. replaceMacros env (a @ t @ b) context = a' @ t @ b'
           \<and> (a = [] \<longrightarrow> a' = []) \<and> (b = [] \<longrightarrow> b' = [])"
proof -
  have "\<forall>m \<in> set (map fst (macros env context)). bracketed_token m \<and> \<not> ci_equal m t"
    using assms(2) macro_names_bracketed by (simp add: macro_names_fst)
  from unknown_survives_fold [OF assms(1) this, of a b]
  show ?thesis using assms(1) by (auto simp add: replaceMacros_def bracketed_token_def)
qed

text \<open>The token \<^verbatim>\<open>[ERRORCODE]\<close>, alone and inside a URL with a known macro.\<close>

theorem unknown_token_left_unchanged_witness:
  "bracketed_token ''[ERRORCODE]''
   \<and> filter (\<lambda>m. ci_equal m ''[ERRORCODE]'') macro_names = []
   \<and> replaceMacros sample_env ''[ERRORCODE]'' empty_context = ''[ERRORCODE]''
   \<and> (\<exists>a' b'. replaceMacros sample_env (''e='' @ ''[ERRORCODE]'' @ ''&r=[random]'') empty_context
                 = a' @ ''[ERRORCODE]'' @ b')"
proof -
  from unknown_token_left_unchanged [OF errorcode_unknown, of sample_env "[]" "[]" empty_context]
  have 1: "replaceMacros sample_env ''[ERRORCODE]'' empty_context = ''[ERRORCODE]''" by simp
  from unknown_token_left_unchanged [OF errorcode_unknown, of sample_env "''e=''" "''&r=[random]''"
      empty_context]
  have 2: "\<exists>a' b'. replaceMacros sample_env (''e='' @ ''[ERRORCODE]'' @ ''&r=[random]'') empty_context
                 = a' @ ''[ERRORCODE]'' @ b'" by blast
  from errorcode_unknown(2)
  have 3: "filter (\<lambda>m. ci_equal m ''[ERRORCODE]'') macro_names = []"
    by (simp add: filter_empty_conv)
  from errorcode_unknown(1) 1 2 3 show ?thesis by blast
qed

lemma unknown_token_example:
  "replaceMacros sample_env ''e=[ERRORCODE]&r=[random]'' empty_context = ''e=[ERRORCODE]&r=564''"
  by (simp add: match_eval sample_env_def del: ci_prefix.simps(3))

text \<open>
  C4: all occurrences of one placeholder token in a URL are replaced by one identical
  value. The value is handed to \<^verbatim>\<open>replace\<close> as the replacement text, in which a
  dollar sign is a pattern. With the asset URI \<^verbatim>\<open>v?c=$&d\<close> the two spellings of the
  token \<^verbatim>\<open>[ASSETURI]\<close> in one URL are replaced by two different texts, each of which
  contains the placeholder again.
\<close>

theorem dollar_in_value_breaks_substitution:
  "replaceMacros sample_env ''[ASSETURI]&[asseturi]'' (empty_context\<lparr>assetURI := ''v?c=$&d''\<rparr>)
     = ''v?c=[ASSETURI]d&v?c=[asseturi]d''"
  by (simp add: match_eval empty_context_def del: ci_prefix.simps(3))

lemma cachebuster_twice_example:
  "replaceMacros sample_env ''[CACHEBUSTER]-[cachebuster]'' empty_context = ''847-847''"
  by (simp add: match_eval sample_env_def del: ci_prefix.simps(3))

section \<open>Properties of the firing ledger\<close>

lemma sendTracking_never_rejects: "sendTracking_settled outcome = Resolved True"
  by (cases outcome) simp_all

lemma fired_url_is_refused:
  "u \<in> firedTrackers t \<Longrightarrow> fireTracker env u ty ev context t = (Some False, t)"
  by (simp add: fireTracker_def)

text \<open>
  C10: \<^verbatim>\<open>sendTracking\<close> is resolved with \<^verbatim>\<open>true\<close> on the load of the image, on its
  error and on the timeout, and is never rejected. Hence for a URL that is not empty
  and not recorded as fired, \<^verbatim>\<open>fireTracker\<close> passes its guard, the awaited call returns
  \<^verbatim>\<open>true\<close> and appends one record, of status \<^verbatim>\<open>success\<close>; and whatever suspended
  call is resumed, in whatever state, it returns \<^verbatim>\<open>true\<close> and the record it appends
  has status \<^verbatim>\<open>success\<close>, so the \<^verbatim>\<open>catch\<close> block is never entered.
\<close>

theorem fireTracker_never_fails:
  assumes "u \<noteq> []" and "u \<notin> firedTrackers t"
  shows "sendTracking_settled outcome = Resolved True
    \<and> fst (fireTracker env u ty ev context t) = None
    \<and> fst (fireTracker_awaited env u ty ev context outcome catch_time t) = True
    \<and> trackingLog (snd (fireTracker_awaited env u ty ev context outcome catch_time t))
         = trackingLog t @
           [\<lparr>log_url = replaceMacros env u context, log_originalURL = Some u, log_type = ty,
             log_event = ev, log_timestamp = isoString env, log_status = success,
             log_error = None\<rparr>]
    \<and> (\<forall>c t'. fst (fireTracker_resume (sendTracking_settled outcome) catch_time c t') = True
          \<and> log_status (last (trackingLog
                (snd (fireTracker_resume (sendTracking_settled outcome) catch_time c t'))))
              = success)"
  using assms
  by (simp add: fireTracker_awaited_def fireTracker_def sendTracking_def
      sendTracking_never_rejects Let_def)

text \<open>The impression URL of the sample ad, with the image failing to load.\<close>

theorem fireTracker_never_fails_witness:
  "''https://t.example/imp'' \<noteq> [] \<and> ''https://t.example/imp'' \<notin> firedTrackers new_tracker
   \<and> sendTracking_settled img_onerror = Resolved True
   \<and> fst (fireTracker_awaited sample_env ''https://t.example/imp'' ''impression'' None
            empty_context img_onerror [] new_tracker) = True
   \<and> map log_status (trackingLog (snd (fireTracker_awaited sample_env ''https://t.example/imp''
        ''impression'' None empty_context img_onerror [] new_tracker))) = [success]"
  using fireTracker_never_fails [of "''https://t.example/imp''" new_tracker img_onerror
      sample_env "''impression''" None empty_context "[]"]
  by (simp add: new_tracker_def)

text \<open>
  C1: at most one record per raw URL over a run, also for a URL in two categories. The
  guard does refuse a URL that is recorded as fired (\<open>fired_url_is_refused\<close>), but a
  URL is recorded only when its request has settled. With one URL as the impression
  and as the \<^verbatim>\<open>start\<close> tracker, and playback starting before the request of the
  impression has settled, the URL is requested twice and the log gets two records for
  it.
\<close>

theorem shared_url_fired_twice:
  "image_requests (tracker (dispatch sample_envs Play
      (snd (loadAd sample_envs sample_vast shared_catalog sample_player))))
     = [''https://t.example/p'', ''https://t.example/p'']
   \<and> map log_originalURL (trackingLog
        (settle 0 img_onload [] (settle 0 img_onload []
          (tracker (dispatch sample_envs Play
            (snd (loadAd sample_envs sample_vast shared_catalog sample_player)))))))
     = [Some ''https://t.example/p'', Some ''https://t.example/p'']"
  unfolding sample_load snd_conv
  by (simp add: dispatch_def onPlay_def logEvent_def Let_def sample_player_def
      new_videoPlayer_def no_quartiles_def shared_catalog_def fireImpressions_def
      fireEventTrackers_def fireTracker_def sendTracking_def event_names_def
      new_tracker_def settle_def replaceMacros_no_open)

text \<open>The same within one batch, where no call is resumed before all are made.\<close>

lemma duplicate_in_batch:
  "map log_originalURL (trackingLog
     (settle 0 img_onload [] (settle 0 img_onload []
        (fireImpressions sample_envs [ImpressionString ''https://t.example/p'',
            ImpressionString ''https://t.example/p''] empty_context new_tracker))))
     = [Some ''https://t.example/p'', Some ''https://t.example/p'']"
  unfolding fireImpressions_def
  by (simp add: new_tracker_def settle_def replaceMacros_no_open fireTracker_def
      sendTracking_def Let_def)

text \<open>
  Where every call is awaited before the next one is made, the guard does keep the
  log at one record for a raw URL.
\<close>

lemma awaited_calls_record_once:
  assumes "recorded_once t"
  shows "recorded_once (snd (fireTracker_awaited env u ty ev context outcome catch_time t))"
proof (cases "u = [] \<or> u \<in> firedTrackers t")
  case True
  then show ?thesis using assms by (simp add: fireTracker_awaited_def fireTracker_def)
next
  case False
  then have "Some u \<notin> Some ` firedTrackers t" by auto
  with assms have "Some u \<notin> set (map log_originalURL (trackingLog t))"
    unfolding recorded_once_def by blast
  with assms False show ?thesis
    by (cases outcome)
       (auto simp add: recorded_once_def fireTracker_awaited_def fireTracker_def
          sendTracking_def Let_def)
qed

lemma new_tracker_recorded_once: "recorded_once new_tracker"
  by (simp add: recorded_once_def new_tracker_def)

section \<open>Properties of the lifecycle\<close>

text \<open>
  The progress is the rounded quotient. At 24 s of 30 s it is the double 0.8. At the
  position 11.325 s of a duration of 15.1 s, which as doubles are
  \<open>3187704111248179 / 2 ^ 48\<close> and \<open>8500544296661811 / 2 ^ 49\<close>, the exact quotient is
  below three quarters and the progress is 0.75, so that the third threshold is reached.
\<close>

lemma progress_24_of_30:
  "js_divide 24 (Finite 30) = Finite (3602879701896397 / 4503599627370496)"
proof -
  have "round_double (4 / 5) = Finite (of_int 7205759403792794 * power_int 2 (- 1 - 52))"
    by (rule round_double_near) simp_all
  then show ?thesis by (simp add: js_divide_def)
qed

lemma rounded_progress_reaches_threshold:
  "3187704111248179 / 2 ^ 48 / (8500544296661811 / 2 ^ 49) < (3 / 4 :: rat)"
  "js_divide (3187704111248179 / 2 ^ 48) (Finite (8500544296661811 / 2 ^ 49)) = Finite (3 / 4)"
proof -
  show "3187704111248179 / 2 ^ 48 / (8500544296661811 / 2 ^ 49) < (3 / 4 :: rat)" by simp
  have "round_double (6375408222496358 / 8500544296661811)
          = Finite (of_int 6755399441055744 * power_int 2 (- 1 - 52))"
    by (rule round_double_near) simp_all
  then show "js_divide (3187704111248179 / 2 ^ 48) (Finite (8500544296661811 / 2 ^ 49))
               = Finite (3 / 4)"
    by (simp add: js_divide_def)
qed

text \<open>
  C2, as amended: on a position update with a duration that is known and not zero,
  quartile evaluation fires at most one quartile event, and it is the lowest threshold
  that the progress has reached and that has not fired (so a threshold that was skipped
  is fired before a higher one). In particular, on the update that follows a jump from
  the start to a position at or beyond three quarters of the duration, such as 80%,
  the highest unfired threshold reached is \<^verbatim>\<open>thirdQuartile\<close> and the one event fired
  is \<^verbatim>\<open>firstQuartile\<close>.
\<close>

theorem onTimeUpdate_fires_lowest:
  assumes "\<not> falsy_number (duration (video p))" and "trackingURLs p = Some turls"
  shows "onTimeUpdate envs p
           = (case lowest_reached_unfired (quartilesFired p) (progress_of (video p)) of
                None \<Rightarrow> p
              | Some q \<Rightarrow> fire_quartile envs q turls p)
         \<and> (quartilesFired p = no_quartiles\<lparr>start := True\<rparr> \<and> duration (video p) = Finite d
              \<and> 0 < d \<and> 3 * d \<le> 4 * currentTime (video p)
              \<longrightarrow> highest_reached_unfired (quartilesFired p) (progress_of (video p))
                    = Some ThirdQuartile
                  \<and> onTimeUpdate envs p = fire_quartile envs FirstQuartile turls p)"
proof -
  note c = onTimeUpdate_chain [OF assms, of envs]
  have "highest_reached_unfired (quartilesFired p) (progress_of (video p)) = Some ThirdQuartile
        \<and> onTimeUpdate envs p = fire_quartile envs FirstQuartile turls p"
    if q: "quartilesFired p = no_quartiles\<lparr>start := True\<rparr>" and d: "duration (video p) = Finite d"
      and d0: "0 < d" and x: "3 * d \<le> 4 * currentTime (video p)"
  proof -
    have x1: "d \<le> 4 * currentTime (video p)" using d0 x by simp
    have n: "\<not> firstQuartile (quartilesFired p)" "\<not> thirdQuartile (quartilesFired p)"
      by (simp_all add: q no_quartiles_def)
    have h: "highest_reached_unfired (quartilesFired p) (progress_of (video p))
              = Some ThirdQuartile"
      unfolding progress_of_def d using d0 x n(2) by (rule highest_third)
    have l: "lowest_reached_unfired (quartilesFired p) (progress_of (video p))
              = Some FirstQuartile"
      unfolding progress_of_def d using d0 x1 n(1) by (rule lowest_first)
    from c h l show ?thesis by simp
  qed
  with c show ?thesis by blast
qed

text \<open>
  C2 as stated fails. The sample ad has started and no quartile has fired; the position
  jumps to 24 s of 30 s, which is 80%. The highest unfired threshold reached is
  \<^verbatim>\<open>thirdQuartile\<close>, but the update requests the URL of \<^verbatim>\<open>firstQuartile\<close> and sets
  the flag of \<^verbatim>\<open>firstQuartile\<close>, not that of \<^verbatim>\<open>thirdQuartile\<close>.
\<close>

theorem seek_to_80_fires_firstQuartile:
  "highest_reached_unfired (quartilesFired sample_started)
      (progress_of ((video sample_started)\<lparr>currentTime := 24\<rparr>)) = Some ThirdQuartile
   \<and> new_requests (tracker sample_started)
        (tracker (dispatch sample_envs (Timeupdate 24) sample_started))
      = [''https://t.example/q1'']
   \<and> firstQuartile (quartilesFired (dispatch sample_envs (Timeupdate 24) sample_started))
   \<and> \<not> thirdQuartile (quartilesFired (dispatch sample_envs (Timeupdate 24) sample_started))"
  by (simp add: dispatch_def onTimeUpdate_def progress_of_def progress_24_of_30 logEvent_def
      Let_def sample_started_facts
      no_quartiles_def highest_reached_unfired_def reached_unfired_def
      new_requests_fireEventTrackers to_request_def sample_catalog_def replaceMacros_no_open)

text \<open>The same update, as an instance of the amended statement.\<close>

theorem onTimeUpdate_fires_lowest_witness:
  "\<not> falsy_number
       (duration (video (sample_started\<lparr>video := (video sample_started)\<lparr>currentTime := 24\<rparr>\<rparr>)))
   \<and> trackingURLs (sample_started\<lparr>video := (video sample_started)\<lparr>currentTime := 24\<rparr>\<rparr>)
       = Some sample_catalog
   \<and> highest_reached_unfired
        (quartilesFired (sample_started\<lparr>video := (video sample_started)\<lparr>currentTime := 24\<rparr>\<rparr>))
        (progress_of (video (sample_started\<lparr>video := (video sample_started)\<lparr>currentTime := 24\<rparr>\<rparr>)))
      = Some ThirdQuartile
   \<and> onTimeUpdate sample_envs
        (sample_started\<lparr>video := (video sample_started)\<lparr>currentTime := 24\<rparr>\<rparr>)
      = fire_quartile sample_envs FirstQuartile sample_catalog
          (sample_started\<lparr>video := (video sample_started)\<lparr>currentTime := 24\<rparr>\<rparr>)"
proof -
  let ?p = "sample_started\<lparr>video := (video sample_started)\<lparr>currentTime := 24\<rparr>\<rparr>"
  have h1: "\<not> falsy_number (duration (video ?p))" by (simp add: sample_started_facts)
  have h2: "trackingURLs ?p = Some sample_catalog" by (simp add: sample_started_facts)
  have h3: "quartilesFired ?p = no_quartiles\<lparr>start := True\<rparr> \<and> duration (video ?p) = Finite 30
              \<and> (0::rat) < 30 \<and> 3 * 30 \<le> 4 * currentTime (video ?p)"
    by (simp add: sample_started_facts)
  from onTimeUpdate_fires_lowest [OF h1 h2, of sample_envs 30] h3
  have "highest_reached_unfired (quartilesFired ?p) (progress_of (video ?p)) = Some ThirdQuartile
        \<and> onTimeUpdate sample_envs ?p = fire_quartile sample_envs FirstQuartile sample_catalog ?p"
    by blast
  with h1 h2 show ?thesis by blast
qed

text \<open>
  C3: for a loaded linear ad of a known positive duration, the \<^verbatim>\<open>play\<close> event, the
  position updates at 0%, 10%, 26%, 51%, 76% and 100% of the duration and the
  \<^verbatim>\<open>ended\<close> event fire the lifecycle events \<^verbatim>\<open>start\<close>, \<^verbatim>\<open>firstQuartile\<close>,
  \<^verbatim>\<open>midpoint\<close>, \<^verbatim>\<open>thirdQuartile\<close>, \<^verbatim>\<open>complete\<close>, in this order and each once: the
  tracker is what these five calls of \<^verbatim>\<open>fireEventTrackers\<close> make of it, the event log
  gets the five tracking entries in this order, and all five flags are set.
\<close>

theorem quartile_run:
  assumes "loadAd envs0 vd turls p0 = (True, p)"
    and "duration (video p0) = Finite d" and "0 < d"
  shows "tracker (play_through envs (position_stream d) p)
           = fireEventTrackers envs ''complete'' (tracking turls) empty_context
              (fireEventTrackers envs ''thirdQuartile'' (tracking turls) empty_context
                (fireEventTrackers envs ''midpoint'' (tracking turls) empty_context
                  (fireEventTrackers envs ''firstQuartile'' (tracking turls) empty_context
                    (fireEventTrackers envs ''start'' (tracking turls) empty_context
                       (tracker p)))))
         \<and> tracking_messages (play_through envs (position_stream d) p)
           = tracking_messages p @
             [''Fired start tracking'', ''Fired first quartile tracking (25%)'',
              ''Fired midpoint tracking (50%)'', ''Fired third quartile tracking (75%)'',
              ''Fired complete tracking'']
         \<and> quartilesFired (play_through envs (position_stream d) p)
           = \<lparr>start = True, firstQuartile = True, midpoint = True, thirdQuartile = True,
              complete = True\<rparr>"
proof -
  note l = loadAd_loaded [OF assms(1)]
  have d: "duration (video p) = Finite d" using l(6) assms(2) by simp
  note r = position_stream_run [OF l(1,2,3) d assms(3), of envs]
  from r(1) r(3) r(2) show ?thesis by (intro conjI)
qed

text \<open>The sample ad: the five URLs are requested in this order.\<close>

theorem quartile_run_witness:
  "loadAd sample_envs sample_vast sample_catalog sample_player = (True, sample_loaded)
   \<and> duration (video sample_player) = Finite 30 \<and> (0::rat) < 30
   \<and> new_requests (tracker sample_loaded) (tracker sample_completed)
      = [''https://t.example/s'', ''https://t.example/q1'', ''https://t.example/q2'',
         ''https://t.example/q3'', ''https://t.example/c'']
   \<and> tracking_messages sample_completed
      = [''Fired start tracking'', ''Fired first quartile tracking (25%)'',
         ''Fired midpoint tracking (50%)'', ''Fired third quartile tracking (75%)'',
         ''Fired complete tracking'']"
proof -
  have h2: "duration (video sample_player) = Finite 30"
    by (simp add: sample_player_def new_videoPlayer_def sample_video_def)
  have h3: "(0::rat) < 30" by simp
  note q = quartile_run [OF sample_loaded_eq h2 h3, of sample_envs, folded sample_completed_def]
  have m: "tracking_messages sample_loaded = []"
    unfolding sample_loaded_def sample_load snd_conv
    by (simp add: tracking_messages_def sample_player_def new_videoPlayer_def)
  have r: "new_requests (tracker sample_loaded) (tracker sample_completed)
      = [''https://t.example/s'', ''https://t.example/q1'', ''https://t.example/q2'',
         ''https://t.example/q3'', ''https://t.example/c'']"
    unfolding q [THEN conjunct1]
    by (simp add: new_requests_def fireEventTrackers_def sample_catalog_def
        replaceMacros_no_open sample_loaded_facts fireImpressions_def new_tracker_def
        fireTracker_def sendTracking_def Let_def)
  from q m r sample_loaded_eq h2 h3 show ?thesis by simp
qed

text \<open>
  C7: with an ad loaded, the handler of \<^verbatim>\<open>pause\<close> fires the \<^verbatim>\<open>pause\<close> trackers if and
  only if the element's \<^verbatim>\<open>ended\<close> flag is false; when it is true the handler does
  nothing at all. When playback reaches its end, so that \<^verbatim>\<open>pause\<close> is dispatched with
  the flag set and \<^verbatim>\<open>ended\<close> behind it, only the \<^verbatim>\<open>complete\<close> trackers are fired.
\<close>

theorem pause_unless_ended:
  assumes "trackingURLs p = Some turls"
  shows "new_requests (tracker p) (tracker (onPause envs p))
           = (if ended (video p) then []
              else to_request envs empty_context (firedTrackers (tracker p))
                     (event_urls ''pause'' turls))
         \<and> (ended (video p) \<longrightarrow> onPause envs p = p)
         \<and> (\<not> ended (video p) \<longrightarrow>
               tracker (onPause envs p)
                 = fireEventTrackers envs ''pause'' (tracking turls) empty_context (tracker p)
               \<and> eventLog (onPause envs p)
                 = eventLog p @ [\<lparr>ev_type = ''pause'', ev_message = ''Video paused'',
                                  ev_currentTime = currentTime (video p)\<rparr>])
         \<and> (listeners p = event_names \<and> \<not> complete (quartilesFired p) \<longrightarrow>
               tracker (play_through envs [PauseAtEnd, Ended] p)
                 = fireEventTrackers envs ''complete'' (tracking turls) empty_context (tracker p)
               \<and> new_requests (tracker p) (tracker (play_through envs [PauseAtEnd, Ended] p))
                 = to_request envs empty_context (firedTrackers (tracker p))
                     (event_urls ''complete'' turls))"
proof -
  have a: "new_requests (tracker p) (tracker (onPause envs p))
           = (if ended (video p) then []
              else to_request envs empty_context (firedTrackers (tracker p))
                     (event_urls ''pause'' turls))"
    using assms
    by (simp add: onPause_def logEvent_def Let_def new_requests_fireEventTrackers
        event_urls_def)
  have b: "ended (video p) \<longrightarrow> onPause envs p = p" by (simp add: onPause_def)
  have c: "\<not> ended (video p) \<longrightarrow>
               tracker (onPause envs p)
                 = fireEventTrackers envs ''pause'' (tracking turls) empty_context (tracker p)
               \<and> eventLog (onPause envs p)
                 = eventLog p @ [\<lparr>ev_type = ''pause'', ev_message = ''Video paused'',
                                  ev_currentTime = currentTime (video p)\<rparr>]"
    using assms by (simp add: onPause_def logEvent_def Let_def)
  have d: "listeners p = event_names \<and> \<not> complete (quartilesFired p) \<longrightarrow>
               tracker (play_through envs [PauseAtEnd, Ended] p)
                 = fireEventTrackers envs ''complete'' (tracking turls) empty_context (tracker p)"
    using assms
    by (simp add: play_through_def dispatch_def onPause_def onEnded_def logEvent_def Let_def)
  from d have e: "listeners p = event_names \<and> \<not> complete (quartilesFired p) \<longrightarrow>
       new_requests (tracker p) (tracker (play_through envs [PauseAtEnd, Ended] p))
                 = to_request envs empty_context (firedTrackers (tracker p))
                     (event_urls ''complete'' turls)"
    by (simp add: new_requests_fireEventTrackers event_urls_def)
  from a b c d e show ?thesis by blast
qed

text \<open>The sample ad, paused in the middle, paused at the end, and ending.\<close>

theorem pause_unless_ended_witness:
  "trackingURLs sample_started = Some sample_catalog
   \<and> \<not> ended (video sample_started)
   \<and> new_requests (tracker sample_started) (tracker (onPause sample_envs sample_started))
       = [''https://t.example/pa'']
   \<and> ended (video (sample_started\<lparr>video := (video sample_started)\<lparr>ended := True\<rparr>\<rparr>))
   \<and> new_requests (tracker sample_started)
        (tracker (onPause sample_envs
           (sample_started\<lparr>video := (video sample_started)\<lparr>ended := True\<rparr>\<rparr>))) = []
   \<and> new_requests (tracker sample_started)
        (tracker (play_through sample_envs [PauseAtEnd, Ended] sample_started))
       = [''https://t.example/c'']"
proof -
  let ?e = "sample_started\<lparr>video := (video sample_started)\<lparr>ended := True\<rparr>\<rparr>"
  have h: "trackingURLs sample_started = Some sample_catalog" by (simp add: sample_started_facts)
  have he: "trackingURLs ?e = Some sample_catalog" by (simp add: sample_started_facts)
  have n: "\<not> ended (video sample_started)"
    by (simp add: sample_started_def play_through_def dispatch_def onPlay_def
        onTimeUpdate_def logEvent_def Let_def sample_loaded_facts no_quartiles_def)
  have l: "listeners sample_started = event_names \<and> \<not> complete (quartilesFired sample_started)"
    by (simp add: sample_started_facts no_quartiles_def)
  have u: "to_request sample_envs empty_context {} (event_urls ''pause'' sample_catalog)
             = [''https://t.example/pa'']"
     "to_request sample_envs empty_context {} (event_urls ''complete'' sample_catalog)
             = [''https://t.example/c'']"
    by (simp_all add: to_request_def event_urls_def sample_catalog_def replaceMacros_no_open)
  note w = pause_unless_ended [OF h, of sample_envs]
  note we = pause_unless_ended [OF he, of sample_envs]
  from w [THEN conjunct1] n u(1)
  have a1: "new_requests (tracker sample_started) (tracker (onPause sample_envs sample_started))
       = [''https://t.example/pa'']"
    by (simp add: sample_started_facts)
  have e: "ended (video ?e)" by simp
  from we [THEN conjunct1]
  have a2: "new_requests (tracker sample_started) (tracker (onPause sample_envs ?e)) = []"
    by simp
  from w [THEN conjunct2, THEN conjunct2, THEN conjunct2, rule_format, OF l, THEN conjunct2] u(2)
  have a3: "new_requests (tracker sample_started)
        (tracker (play_through sample_envs [PauseAtEnd, Ended] sample_started))
       = [''https://t.example/c'']"
    by (simp add: sample_started_facts)
  from h n a1 e a2 a3 show ?thesis by blast
qed

lemma select_preferred_cong:
  "canPlayType v = canPlayType v' \<Longrightarrow> select_preferred v files tys = select_preferred v' files tys"
  by (induction tys) (auto split: option.splits)

lemma loadAd_accepts_cong:
  assumes "canPlayType (video p) = canPlayType (video q)"
  shows "fst (loadAd envs vd turls p) = fst (loadAd envs' vd turls' q)"
proof -
  have s: "\<And>files. selectMediaFile (video p) files = selectMediaFile (video q) files"
    unfolding selectMediaFile_def using assms by (rule select_preferred_cong)
  show ?thesis
    by (simp add: loadAd_def Let_def s split: option.splits ad_body.splits creative_data.splits)
qed

lemma clearAll_facts:
  "quartilesFired (clearAll p) = no_quartiles"
  "firedTrackers (tracker (clearAll p)) = {}"
  "trackingLog (tracker (clearAll p)) = []"
  "canPlayType (video (clearAll p)) = canPlayType (video p)"
  "listeners (clearAll p) = []"
  by (simp_all add: clearAll_def reset_def removeEventListeners_def tracker_reset_def)

lemma play_after_load:
  assumes "loadAd envs vd turls p = (True, p')"
  shows "new_requests (tracker p') (tracker (dispatch envs' Play p'))
           = to_request envs' empty_context (firedTrackers (tracker p)) (event_urls ''start'' turls)
         \<and> start (quartilesFired (dispatch envs' Play p'))"
proof -
  note l = loadAd_loaded [OF assms]
  have f: "firedTrackers (tracker p') = firedTrackers (tracker p)" by (simp add: l(5))
  show ?thesis
    using l(1,2,3)
    by (simp add: dispatch_def onPlay_def logEvent_def Let_def no_quartiles_def
        new_requests_fireEventTrackers event_urls_def f)
qed

lemma loadAd_canPlayType:
  "canPlayType (video (snd (loadAd envs vd turls p))) = canPlayType (video p)"
  by (simp add: loadAd_def Let_def logEvent_def setupEventListeners_def removeEventListeners_def
      split: option.splits ad_body.splits creative_data.splits)

lemma dispatch_canPlayType:
  "canPlayType (video (dispatch envs e p)) = canPlayType (video p)"
  by (cases e)
     (simp_all add: dispatch_def onPlay_def onPause_def onEnded_def onTimeUpdate_def
        logEvent_def Let_def split: option.splits)

lemma play_through_canPlayType:
  "canPlayType (video (play_through envs es p)) = canPlayType (video p)"
  unfolding play_through_def
  by (induction es arbitrary: p) (simp_all add: dispatch_canPlayType)

text \<open>
  \<^verbatim>\<open>clearAll\<close> (the reset of the player and of the tracker) in any state leaves all
  one-shot flags false and the set of fired URLs and the log empty. When the same model
  is loaded directly behind it, with no suspended call resumed in between, the load is
  accepted as it was the first time and requests every impression URL again, and
  \<^verbatim>\<open>play\<close> behind it requests every \<^verbatim>\<open>start\<close> URL again.
\<close>

lemma reload_directly_after_clearAll:
  assumes "loadAd envs vd turls p0 = (True, p1)"
    and "firedTrackers (tracker p0) = {}"
    and "canPlayType (video p) = canPlayType (video p0)"
  shows "quartilesFired (clearAll p) = no_quartiles
    \<and> firedTrackers (tracker (clearAll p)) = {}
    \<and> trackingLog (tracker (clearAll p)) = []
    \<and> fst (loadAd envs vd turls (clearAll p)) = True
    \<and> new_requests (tracker (clearAll p)) (tracker (snd (loadAd envs vd turls (clearAll p))))
        = to_request envs empty_context {} (map impression_url (impressions turls))
    \<and> new_requests (tracker p0) (tracker p1)
        = to_request envs empty_context {} (map impression_url (impressions turls))
    \<and> new_requests (tracker (snd (loadAd envs vd turls (clearAll p))))
         (tracker (dispatch envs' Play (snd (loadAd envs vd turls (clearAll p)))))
        = to_request envs' empty_context {} (event_urls ''start'' turls)
    \<and> new_requests (tracker p1) (tracker (dispatch envs' Play p1))
        = to_request envs' empty_context {} (event_urls ''start'' turls)
    \<and> start (quartilesFired (dispatch envs' Play (snd (loadAd envs vd turls (clearAll p)))))"
proof -
  have acc: "fst (loadAd envs vd turls (clearAll p)) = True"
    using loadAd_accepts_cong [of "clearAll p" p0 envs vd turls envs turls] assms(1,3)
    by (simp add: clearAll_facts)
  then obtain p2 where p2: "loadAd envs vd turls (clearAll p) = (True, p2)"
    by (cases "loadAd envs vd turls (clearAll p)") simp
  have r2: "new_requests (tracker (clearAll p)) (tracker p2)
        = to_request envs empty_context {} (map impression_url (impressions turls))"
    using loadAd_loaded(5) [OF p2]
    by (simp add: new_requests_fireImpressions clearAll_facts)
  have r1: "new_requests (tracker p0) (tracker p1)
        = to_request envs empty_context {} (map impression_url (impressions turls))"
    using loadAd_loaded(5) [OF assms(1)]
    by (simp add: new_requests_fireImpressions assms(2))
  note s2 = play_after_load [OF p2, of envs', unfolded clearAll_facts]
  note s1 = play_after_load [OF assms(1), of envs', unfolded assms(2)]
  from acc r2 r1 s2 s1 show ?thesis by (simp add: clearAll_facts p2)
qed

text \<open>
  The calls suspended at the clearing: of the sample ad played to its end with no
  request settled these are all six, the impression and \<^verbatim>\<open>start\<close> first.
\<close>

lemma sample_completed_awaiting:
  "map sf_url (awaiting (tracker (clearAll sample_completed)))
     = [''https://t.example/imp'', ''https://t.example/s'', ''https://t.example/q1'',
        ''https://t.example/q2'', ''https://t.example/q3'', ''https://t.example/c'']"
  by (simp add: clearAll_def reset_def removeEventListeners_def tracker_reset_def
      sample_completed_facts sample_loaded_facts fireEventTrackers_def fireImpressions_def
      fireTracker_def sendTracking_def Let_def sample_catalog_def new_tracker_def
      replaceMacros_no_open)

lemma sample_resettled_facts:
  "firedTrackers (tracker sample_resettled) = {''https://t.example/imp'', ''https://t.example/s''}"
  "map log_originalURL (trackingLog (tracker sample_resettled))
     = [Some ''https://t.example/imp'', Some ''https://t.example/s'']"
  "quartilesFired sample_resettled = no_quartiles"
  "canPlayType (video sample_resettled) = canPlayType (video sample_player)"
proof -
  show "firedTrackers (tracker sample_resettled)
          = {''https://t.example/imp'', ''https://t.example/s''}"
    "map log_originalURL (trackingLog (tracker sample_resettled))
       = [Some ''https://t.example/imp'', Some ''https://t.example/s'']"
    by (simp_all add: sample_resettled_def request_settles_def settle_def
        clearAll_def reset_def removeEventListeners_def tracker_reset_def
        sample_completed_facts sample_loaded_facts fireEventTrackers_def fireImpressions_def
        fireTracker_def sendTracking_def Let_def sample_catalog_def new_tracker_def
        replaceMacros_no_open insert_commute)
  show "quartilesFired sample_resettled = no_quartiles"
    by (simp add: sample_resettled_def request_settles_def clearAll_facts)
  show "canPlayType (video sample_resettled) = canPlayType (video sample_player)"
    unfolding sample_resettled_def request_settles_def sample_completed_def sample_loaded_def
    by (simp add: clearAll_facts play_through_canPlayType loadAd_canPlayType)
qed

text \<open>
  C8: after \<^verbatim>\<open>complete\<close> has fired, the reset of the player and of the ledger and a
  reload of the same model restore the firing of the first load. \<^verbatim>\<open>clearAll\<close> does
  leave the flags false and the set of fired URLs empty, but \<^verbatim>\<open>Tracker.reset\<close> does
  not reach the calls of \<^verbatim>\<open>fireTracker\<close> that are suspended at their \<^verbatim>\<open>await\<close>:
  each of them, when its request is settled behind the reset, adds its URL to the
  emptied set and its record to the emptied log. The sample ad is played to its end
  while the requests of the impression and of \<^verbatim>\<open>start\<close> are open, then cleared, and the
  two requests are settled by their timers before the same ad is loaded again: the
  first load requested the impression URL, the reload requests nothing, and \<^verbatim>\<open>play\<close>
  behind it requests nothing.
\<close>

theorem reload_after_late_settlement:
  "complete (quartilesFired sample_completed)
   \<and> quartilesFired (clearAll sample_completed) = no_quartiles
   \<and> firedTrackers (tracker (clearAll sample_completed)) = {}
   \<and> new_requests (tracker sample_player) (tracker sample_loaded) = [''https://t.example/imp'']
   \<and> new_requests (tracker sample_loaded) (tracker (dispatch sample_envs Play sample_loaded))
      = [''https://t.example/s'']
   \<and> firedTrackers (tracker sample_resettled)
      = {''https://t.example/imp'', ''https://t.example/s''}
   \<and> map log_originalURL (trackingLog (tracker sample_resettled))
      = [Some ''https://t.example/imp'', Some ''https://t.example/s'']
   \<and> fst (loadAd sample_envs sample_vast sample_catalog sample_resettled) = True
   \<and> new_requests (tracker sample_resettled)
        (tracker (snd (loadAd sample_envs sample_vast sample_catalog sample_resettled)))
      = []
   \<and> new_requests
        (tracker (snd (loadAd sample_envs sample_vast sample_catalog sample_resettled)))
        (tracker (dispatch sample_envs Play
           (snd (loadAd sample_envs sample_vast sample_catalog sample_resettled))))
      = []"
proof -
  have acc: "fst (loadAd sample_envs sample_vast sample_catalog sample_resettled) = True"
    using loadAd_accepts_cong [of sample_resettled sample_player sample_envs sample_vast
        sample_catalog sample_envs sample_catalog] sample_loaded_eq
    by (simp add: sample_resettled_facts)
  then obtain p2 where
    p2: "loadAd sample_envs sample_vast sample_catalog sample_resettled = (True, p2)"
    by (cases "loadAd sample_envs sample_vast sample_catalog sample_resettled") simp
  have r2: "new_requests (tracker sample_resettled) (tracker p2) = []"
    using loadAd_loaded(5) [OF p2]
    by (simp add: new_requests_fireImpressions sample_resettled_facts to_request_def
        sample_catalog_def)
  have s2: "new_requests (tracker p2) (tracker (dispatch sample_envs Play p2)) = []"
    using play_after_load [OF p2, of sample_envs]
    by (simp add: sample_resettled_facts to_request_def event_urls_def sample_catalog_def)
  have r1: "new_requests (tracker sample_player) (tracker sample_loaded)
              = [''https://t.example/imp'']"
    using loadAd_loaded(5) [OF sample_loaded_eq]
    by (simp add: new_requests_fireImpressions to_request_def sample_catalog_def
        sample_player_def new_videoPlayer_def new_tracker_def replaceMacros_no_open)
  have s1: "new_requests (tracker sample_loaded) (tracker (dispatch sample_envs Play sample_loaded))
              = [''https://t.example/s'']"
    using play_after_load [OF sample_loaded_eq, of sample_envs]
    by (simp add: to_request_def event_urls_def sample_catalog_def
        sample_player_def new_videoPlayer_def new_tracker_def replaceMacros_no_open)
  from sample_completed_complete clearAll_facts(1,2) [of sample_completed] r1 s1
    sample_resettled_facts(1,2) acc r2 s2
  show ?thesis by (simp add: p2)
qed

section \<open>Properties of the bridge\<close>

text \<open>
  C9: a message whose \<^verbatim>\<open>sessionId\<close> is not the one of the session, or that has no
  \<^verbatim>\<open>type\<close> or no \<^verbatim>\<open>sessionId\<close>, is ignored by \<^verbatim>\<open>onMessage\<close>: the bridge is left
  as it was, in every field. No handler has run, nothing was posted.
\<close>

theorem foreign_message_ignored:
  assumes "in_sessionId d \<noteq> Some (sessionId b) \<or> falsy (in_type d) \<or> falsy (in_sessionId d)"
  shows "onMessage env (JsonData d) b = b
    \<and> posted (onMessage env (JsonData d) b) = posted b
    \<and> isInitialized (onMessage env (JsonData d) b) = isInitialized b
    \<and> b_video (onMessage env (JsonData d) b) = b_video b
    \<and> b_tracker (onMessage env (JsonData d) b) = b_tracker b"
  using assms by (auto simp add: onMessage_def)

lemma not_a_message_ignored:
  "onMessage env NoData b = b" "onMessage env NotJSON b = b" "onMessage env JsonNull b = b"
  by (simp_all add: onMessage_def)

lemma own_message_handled:
  "onMessage sample_bridge_env
     (JsonData (foreign_message\<lparr>in_sessionId := Some (sessionId sample_bridge)\<rparr>)) sample_bridge
   = sample_bridge
       \<lparr>isInitialized := True,
        posted := [\<lparr>msg_sessionId = ''simid_1700_abc'', msg_messageId = ''msg_1700_x'',
                    msg_type = ''resolve'', msg_timestamp = 1700,
                    msg_args = ResolveArgs (Some ''m1'') EmptyObject\<rparr>]\<rparr>"
  by (simp add: onMessage_def falsy_def foreign_message_def sample_bridge_def with_creative_def
      new_simidBridge_def messageHandlers_def handleCreativeLoaded_def sendResolve_def
      sendMessage_def sample_bridge_env_def)

text \<open>
  A message of another session; the same message with the session's own identifier is
  handled (\<open>own_message_handled\<close>).
\<close>

theorem foreign_message_ignored_witness:
  "in_sessionId foreign_message \<noteq> Some (sessionId sample_bridge)
   \<and> onMessage sample_bridge_env (JsonData foreign_message) sample_bridge = sample_bridge
   \<and> posted (onMessage sample_bridge_env (JsonData foreign_message) sample_bridge) = []
   \<and> isInitialized (onMessage sample_bridge_env (JsonData foreign_message) sample_bridge) = False"
proof -
  have h: "in_sessionId foreign_message \<noteq> Some (sessionId sample_bridge)
      \<or> falsy (in_type foreign_message) \<or> falsy (in_sessionId foreign_message)"
    by (simp add: foreign_message_def sample_bridge_def with_creative_def new_simidBridge_def)
  have p: "posted sample_bridge = []" "isInitialized sample_bridge = False"
    by (simp_all add: sample_bridge_def with_creative_def new_simidBridge_def)
  have n: "in_sessionId foreign_message \<noteq> Some (sessionId sample_bridge)"
    by (simp add: foreign_message_def sample_bridge_def with_creative_def new_simidBridge_def)
  from foreign_message_ignored [OF h, of sample_bridge_env] n p show ?thesis by simp
qed

section \<open>Properties of the classification of media files\<close>

lemma find_None_iff': "List.find P xs = None \<longleftrightarrow> (\<forall>x \<in> set xs. \<not> P x)"
  by (induction xs) auto

text \<open>
  \<^verbatim>\<open>parseLinear\<close> classifies a media file as requiring an external runtime exactly
  when its \<^verbatim>\<open>apiFramework\<close> is \<^verbatim>\<open>VPAID\<close> or its type is
  \<^verbatim>\<open>application/x-shockwave-flash\<close> or \<^verbatim>\<open>application/javascript\<close>.
\<close>

lemma requires_external_runtime:
  "isVPAID (parseMediaFile el) \<longleftrightarrow>
      at_apiFramework el = Some ''VPAID''
      \<or> at_type el = Some ''application/x-shockwave-flash''
      \<or> at_type el = Some ''application/javascript''"
  by (auto simp add: parseMediaFile_def attr_or_null_def Let_def split: option.splits if_splits)

lemma flash_file_requires_runtime: "isVPAID (parseMediaFile sample_flash_element)"
  by (simp add: requires_external_runtime sample_flash_element_def)

text \<open>
  It sets neither of the properties of the interactive classification, whatever the
  \<^verbatim>\<open>apiFramework\<close>, so on its media files the selection never takes the interactive
  branch.
\<close>

lemma parseLinear_never_interactive:
  "\<not> isSIMID (parseMediaFile el)"
  "\<not> isInteractive (parseMediaFile el)"
  "selectMediaFile_interactive v (map parseMediaFile els) = selectMediaFile v (map parseMediaFile els)"
proof -
  show "\<not> isSIMID (parseMediaFile el)" "\<not> isInteractive (parseMediaFile el)"
    by (simp_all add: parseMediaFile_def Let_def)
  have "List.find (\<lambda>mf. isSIMID mf \<and> isInteractive mf) (map parseMediaFile els) = None"
    by (simp add: find_None_iff' parseMediaFile_def Let_def)
  then show "selectMediaFile_interactive v (map parseMediaFile els)
               = selectMediaFile v (map parseMediaFile els)"
    by (simp add: selectMediaFile_interactive_def)
qed

text \<open>
  C6: a media file whose \<^verbatim>\<open>apiFramework\<close> contains \<^verbatim>\<open>SIMID\<close> is classified as
  interactive, and of an interactive and a non-interactive file the selection takes the
  interactive one. The media file that \<^verbatim>\<open>parseLinear\<close> makes of an element with the
  tag \<^verbatim>\<open>SIMID-1.1\<close> has neither \<^verbatim>\<open>isSIMID\<close> nor \<^verbatim>\<open>isInteractive\<close>, and of this
  file and an MP4 file, in either order, the selection takes the MP4 file.
\<close>

theorem simid_file_not_classified:
  "at_apiFramework sample_simid_element = Some ''SIMID-1.1''
   \<and> \<not> isSIMID (parseMediaFile sample_simid_element)
   \<and> \<not> isInteractive (parseMediaFile sample_simid_element)
   \<and> selectMediaFile_interactive sample_video
        (map parseMediaFile [sample_mp4_element, sample_simid_element])
      = Some (parseMediaFile sample_mp4_element)
   \<and> selectMediaFile_interactive sample_video
        (map parseMediaFile [sample_simid_element, sample_mp4_element])
      = Some (parseMediaFile sample_mp4_element)"
  by (simp add: selectMediaFile_interactive_def selectMediaFile_def parseMediaFile_def
      attr_or_null_def attr_or_def Let_def sample_simid_element_def sample_mp4_element_def
      sample_video_def)

end
